theory Spec2Isabelle
  imports Main "HOL-Library.Word"
begin

section \<open>C arithmetic\<close>

text \<open>
  The sources are C. Sample counts are \<^verbatim>\<open>int\<close>, timestamps and running totals are
  \<^verbatim>\<open>int64_t\<close>. Both are modelled by \<^typ>\<open>int\<close>; signed overflow of an arithmetic
  operation is undefined behaviour in C and lies outside the model. What C does define
  differently from HOL is written out: division truncates towards zero, and an explicit
  narrowing cast \<^verbatim>\<open>(int)\<close> of a 64-bit value keeps the low 32 bits (two's complement),
  as every compiler for the supported targets implements it.
\<close>

definition cdiv :: "int \<Rightarrow> int \<Rightarrow> int" where
  "cdiv a b = sgn a * sgn b * (\<bar>a\<bar> div \<bar>b\<bar>)"

definition int32_cast :: "int \<Rightarrow> int" where
  "int32_cast x = signed_take_bit 31 x"

text \<open>
  \<^verbatim>\<open>WHISPER_SAMPLE_RATE\<close> is a macro of the inference engine's header
  \<^verbatim>\<open>whisper.h\<close>, which the sources include but do not contain; the engine works on
  16 kHz PCM and defines it as 16000.
\<close>

definition WHISPER_SAMPLE_RATE :: int where
  "WHISPER_SAMPLE_RATE = 16000"

definition MIN_int :: "int \<Rightarrow> int \<Rightarrow> int" where
  "MIN_int a b = (if a < b then a else b)"

section \<open>Per-worker state (stream.c)\<close>

type_synonym whisper_token = int

text \<open>
  \<^verbatim>\<open>struct thread_ctx\<close>. The pointer fields to the engine contexts and to the shared
  state are passed as separate arguments where a function needs them. \<open>segment_cb\<close>
  records whether a segment callback is installed (the pointer is non-NULL).
\<close>

record thread_ctx =
  tokens :: "whisper_token list"
  n_tokens :: int
  lang_id :: int
  context_ready :: bool
  time_offset :: int
  output_start :: int
  last_t1 :: int
  segment_cb :: bool
  samples_before_chunk :: int
  chunk_samples :: int

subsection \<open>Context hand-off: copy_tokens\<close>

text \<open>
  \<open>language_cb\<close> is \<open>None\<close> when no language callback is installed and \<open>Some v\<close> when the
  installed callback returns \<open>v\<close> at this call. The result is the returned count, the
  engine's token array after the \<^verbatim>\<open>memcpy\<close>, and the value stored through
  \<^verbatim>\<open>lang_id_out\<close>.
\<close>

definition copy_tokens ::
  "int option \<Rightarrow> thread_ctx \<Rightarrow> whisper_token list \<Rightarrow> int \<Rightarrow> int \<times> whisper_token list \<times> int" where
  "copy_tokens language_cb tctx tokens_out max_tokens =
     (let n = MIN_int (n_tokens tctx) max_tokens;
          lang = lang_id tctx;
          (lang, n) =
            (case language_cb of
               None \<Rightarrow> (lang, n)
             | Some override \<Rightarrow>
                 if override \<noteq> -1 \<and> override \<noteq> lang then (override, 0) else (lang, n));
          tokens_out' =
            (if n > 0 then take (nat n) (tokens tctx) @ drop (nat n) tokens_out
             else tokens_out)
      in (n, tokens_out', lang))"

section \<open>Controller state and host events (jni.c)\<close>

datatype host_event =
    OnError string
  | OnProgress int
  | OnStreamComplete bool

text \<open>
  The fields of \<^verbatim>\<open>struct whisper_jni_context\<close> that the modelled functions read or
  write. \<open>slot_main_loaded\<close> says that slot 0 holds a model; \<open>thread_env\<close> says that
  \<^verbatim>\<open>get_thread_env\<close> yields a JNI environment. The session counter is an
  \<^verbatim>\<open>atomic_uint\<close>, hence a 32-bit word.
\<close>

record whisper_jni_context =
  slot_main_loaded :: bool
  thread_env :: bool
  session_id :: "32 word"
  start_session_id :: "32 word"
  duration_samples :: int
  lang_override :: int

record start_args =
  args_num_threads :: int
  args_language :: "string option"
  args_translate :: bool
  args_live :: bool
  args_session_id :: "32 word"

text \<open>\<^verbatim>\<open>nativeCreate\<close>: the context is zeroed, then the override is set to -1.\<close>

definition nativeCreate :: whisper_jni_context where
  "nativeCreate =
     \<lparr> slot_main_loaded = False, thread_env = True, session_id = 0,
       start_session_id = 0, duration_samples = 0, lang_override = -1 \<rparr>"

definition jni_language_callback :: "whisper_jni_context \<Rightarrow> int" where
  "jni_language_callback ctx = lang_override ctx"

definition nativeStop :: "whisper_jni_context \<Rightarrow> whisper_jni_context" where
  "nativeStop ctx = ctx\<lparr>session_id := session_id ctx + 1\<rparr>"

definition nativeSetDuration :: "whisper_jni_context \<Rightarrow> int \<Rightarrow> whisper_jni_context" where
  "nativeSetDuration ctx duration_ms =
     ctx\<lparr>duration_samples := cdiv (duration_ms * WHISPER_SAMPLE_RATE) 1000\<rparr>"

text \<open>
  \<^verbatim>\<open>nativeUpdateLanguage\<close>. \<open>whisper_lang_id\<close> is the engine's lookup of a language
  tag; \<open>language\<close> is \<open>None\<close> for a null Java string.
\<close>

definition nativeUpdateLanguage ::
  "(string \<Rightarrow> int) \<Rightarrow> whisper_jni_context \<Rightarrow> string option \<Rightarrow> whisper_jni_context" where
  "nativeUpdateLanguage whisper_lang_id ctx language =
     (let lang_id = (case language of None \<Rightarrow> -1 | Some lang_str \<Rightarrow> whisper_lang_id lang_str)
      in ctx\<lparr>lang_override := lang_id\<rparr>)"

text \<open>
  \<^verbatim>\<open>jni_progress_callback\<close>. The product \<^verbatim>\<open>chunk_progress * chunk_samples\<close> is a
  product of two \<^verbatim>\<open>int\<close> and is written with the 32-bit result the machine
  multiplication leaves; the sum and the quotient are 64-bit, and the quotient is cast to
  \<^verbatim>\<open>int\<close> before it is compared with 100.
\<close>

definition jni_progress_callback ::
  "whisper_jni_context \<Rightarrow> int \<Rightarrow> int \<Rightarrow> int \<Rightarrow> host_event list" where
  "jni_progress_callback ctx chunk_progress samples_before chunk_samples' =
     (let total = duration_samples ctx in
      if total \<le> 0 then []
      else if \<not> thread_env ctx then []
      else
        let samples_done = samples_before
                             + cdiv (int32_cast (chunk_progress * chunk_samples')) 100;
            overall = int32_cast (cdiv (samples_done * 100) total);
            overall = (if overall > 100 then 100 else overall)
        in [OnProgress overall])"

text \<open>
  \<^verbatim>\<open>process_start_command\<close>. The stream run itself is the call
  \<^verbatim>\<open>whisper_stream_full(wparams, sparams)\<close>; here \<open>result\<close> is what that call returns
  and \<open>stops\<close> is the number of \<^verbatim>\<open>nativeStop\<close>/\<^verbatim>\<open>nativeDestroy\<close> increments of the
  session counter that other threads perform while it runs.
\<close>

definition process_start_command ::
  "whisper_jni_context \<Rightarrow> start_args \<Rightarrow> int \<Rightarrow> nat \<Rightarrow> host_event list \<times> whisper_jni_context" where
  "process_start_command ctx args result stops =
     (if \<not> slot_main_loaded ctx then
        ([OnError ''Model not loaded: whisper context not initialized''], ctx)
      else
        let current_session = session_id ctx in
        if args_session_id args \<noteq> current_session then ([], ctx)
        else
          let ctx1 = ctx\<lparr>lang_override := -1, start_session_id := args_session_id args\<rparr>;
              ctx2 = (nativeStop ^^ stops) ctx1;
              session_after = session_id ctx2;
              was_stopped = (start_session_id ctx2 \<noteq> session_after)
          in if \<not> was_stopped then ([OnStreamComplete (result = 0)], ctx2)
             else ([], ctx2))"


section \<open>Segment emission (stream.c)\<close>

text \<open>
  A segment of the engine: raw start and end in centiseconds within the chunk, and its
  text. What the stream passes to the segment callback is the triple \<open>(t0, t1, text)\<close>.
\<close>

record segment =
  seg_t0 :: int
  seg_t1 :: int
  seg_text :: string

type_synonym emitted = "int \<times> int \<times> string"

text \<open>The body of the loop of \<^verbatim>\<open>stream_segment_callback\<close> for one segment.\<close>

definition segment_step :: "thread_ctx \<Rightarrow> segment \<Rightarrow> emitted option \<times> thread_ctx" where
  "segment_step tctx seg =
     (let t0 = seg_t0 seg + time_offset tctx;
          t1 = seg_t1 seg + time_offset tctx;
          t0 = (if t0 < output_start tctx then output_start tctx else t0);
          chunk_end = time_offset tctx + cdiv (chunk_samples tctx * 100) WHISPER_SAMPLE_RATE;
          t1 = (if t1 > chunk_end then chunk_end else t1);
          t0 = (if t0 < last_t1 tctx then last_t1 tctx else t0)
      in if t0 \<ge> t1 then (None, tctx)
         else (Some (t0, t1, seg_text seg), tctx\<lparr>last_t1 := t1\<rparr>))"

fun segment_loop :: "thread_ctx \<Rightarrow> segment list \<Rightarrow> emitted list \<times> thread_ctx" where
  "segment_loop tctx [] = ([], tctx)"
| "segment_loop tctx (seg # segs) =
     (case segment_step tctx seg of
        (None, tctx') \<Rightarrow> segment_loop tctx' segs
      | (Some e, tctx') \<Rightarrow>
          (case segment_loop tctx' segs of (es, tctx'') \<Rightarrow> (e # es, tctx'')))"

text \<open>
  \<^verbatim>\<open>stream_segment_callback\<close>: \<open>ctx_segments\<close> are the segments the engine context
  holds, of which the last \<open>n_new\<close> are new (the engine calls with
  \<open>0 \<le> n_new \<le> n_segments\<close>). The result lists the calls of the segment callback.
\<close>

definition stream_segment_callback ::
  "thread_ctx \<Rightarrow> segment list \<Rightarrow> int \<Rightarrow> emitted list \<times> thread_ctx" where
  "stream_segment_callback tctx ctx_segments n_new =
     (if \<not> segment_cb tctx then ([], tctx)
      else
        let n_segments = int (length ctx_segments)
        in segment_loop tctx (drop (nat (n_segments - n_new)) ctx_segments))"

text \<open>The callbacks of one engine invocation, in order.\<close>

fun segment_callbacks ::
  "thread_ctx \<Rightarrow> (segment list \<times> int) list \<Rightarrow> emitted list \<times> thread_ctx" where
  "segment_callbacks tctx [] = ([], tctx)"
| "segment_callbacks tctx ((ctx_segments, n_new) # rest) =
     (case stream_segment_callback tctx ctx_segments n_new of
        (es, tctx') \<Rightarrow>
          (case segment_callbacks tctx' rest of (es', tctx'') \<Rightarrow> (es @ es', tctx'')))"

section \<open>Boundary selection (stream.c)\<close>

text \<open>
  Speech intervals of the voice-activity detector are pairs \<open>(t0, t1)\<close> in centiseconds,
  as the engine's accessors \<^verbatim>\<open>whisper_vad_segments_get_segment_t0/t1\<close> report them.
  A \<^verbatim>\<open>NULL\<close> segment pointer is \<open>None\<close>.
\<close>

type_synonym vad_segments = "(int \<times> int) list"

definition check_gap :: "int \<Rightarrow> int \<Rightarrow> int \<Rightarrow> int \<Rightarrow> int \<Rightarrow> int" where
  "check_gap gap_start_cs gap_end_cs range_start_cs range_end_cs min_silence =
     (let gap_ms = int32_cast ((gap_end_cs - gap_start_cs) * 10) in
      if gap_ms < min_silence then -1
      else if gap_start_cs \<ge> range_end_cs \<or> gap_end_cs \<le> range_start_cs then -1
      else
        let gap_middle_cs = cdiv (gap_start_cs + gap_end_cs) 2;
            gap_middle_cs = (if gap_middle_cs < range_start_cs then range_start_cs else gap_middle_cs);
            gap_middle_cs = (if gap_middle_cs > range_end_cs then range_end_cs else gap_middle_cs);
            result_samples = int32_cast (cdiv (gap_middle_cs * WHISPER_SAMPLE_RATE) 100)
        in result_samples)"

text \<open>
  The \<^verbatim>\<open>for\<close> loop of \<^verbatim>\<open>find_silence_in_segments\<close> over the pairs of consecutive
  intervals. \<open>Some pos\<close> is the early \<^verbatim>\<open>return pos\<close>; \<open>None\<close> means the loop ended (by
  exhaustion or by \<^verbatim>\<open>break\<close>) and the trailing check follows.
\<close>

fun silence_loop :: "vad_segments \<Rightarrow> int \<Rightarrow> int \<Rightarrow> int \<Rightarrow> int \<Rightarrow> int option" where
  "silence_loop (a # b # rest) vad_offset_cs range_start_cs range_end_cs min_silence =
     (let gap_start = snd a + vad_offset_cs;
          gap_end = fst b + vad_offset_cs
      in if gap_end \<le> range_start_cs then
           silence_loop (b # rest) vad_offset_cs range_start_cs range_end_cs min_silence
         else if gap_start \<ge> range_end_cs then None
         else
           let pos = check_gap gap_start gap_end range_start_cs range_end_cs min_silence
           in if pos \<ge> 0 then Some pos
              else silence_loop (b # rest) vad_offset_cs range_start_cs range_end_cs min_silence)"
| "silence_loop segs vad_offset_cs range_start_cs range_end_cs min_silence = None"

definition find_silence_in_segments ::
  "vad_segments option \<Rightarrow> int \<Rightarrow> int \<Rightarrow> int \<Rightarrow> int \<Rightarrow> int" where
  "find_silence_in_segments segs range_start_samples range_end_samples min_silence vad_offset =
     (case segs of
        None \<Rightarrow> -1
      | Some sl \<Rightarrow>
          if sl = [] then -1
          else
            let vad_offset_cs = cdiv (vad_offset * 100) WHISPER_SAMPLE_RATE;
                range_start_cs = cdiv (range_start_samples * 100) WHISPER_SAMPLE_RATE;
                range_end_cs = cdiv (range_end_samples * 100) WHISPER_SAMPLE_RATE
            in case silence_loop sl vad_offset_cs range_start_cs range_end_cs min_silence of
                 Some pos \<Rightarrow> pos
               | None \<Rightarrow>
                   let last_end = snd (last sl) + vad_offset_cs
                   in check_gap last_end range_end_cs range_start_cs range_end_cs min_silence)"

section \<open>Shared stream state and chunking (stream.c)\<close>

text \<open>
  \<^verbatim>\<open>struct common_ctx\<close>. The read buffer is the list of the samples it currently holds,
  so \<^verbatim>\<open>read_buffer_len\<close> is its length and \<open>buffer_size\<close> its capacity. The stream is
  modelled in single-context mode (slot 1 empty): the mutex and the condition variable
  guard nothing then, and one worker runs every chunk.
\<close>

record 'a common_ctx =
  next_chunk_idx :: int
  total_samples_read :: int
  eof :: bool
  abort :: bool
  overlap_samples :: int
  min_chunk_samples :: int
  max_chunk_samples :: int
  min_silence_ms :: int
  max_ctx_tokens :: int
  read_buffer :: "'a list"
  buffer_size :: int

record chunk_info =
  ci_chunk_samples :: int
  ci_actual_chunk_samples :: int
  ci_overlap_offset :: int
  ci_time_offset :: int

text \<open>\<^verbatim>\<open>find_chunk_boundary\<close> returns the boundary and \<^verbatim>\<open>*silence_found\<close>.\<close>

definition find_chunk_boundary ::
  "'a common_ctx \<Rightarrow> int \<Rightarrow> vad_segments option \<Rightarrow> int \<Rightarrow> int \<times> int" where
  "find_chunk_boundary cctx available vad_segs vad_offset =
     (let search_start = min_chunk_samples cctx;
          search_end = MIN_int (max_chunk_samples cctx) available
      in if search_start \<ge> search_end then (search_end, 0)
         else if vad_segs = None then (search_start, 0)
         else
           let silence_pos = find_silence_in_segments vad_segs search_start search_end
                               (min_silence_ms cctx) vad_offset
           in if silence_pos > 0 then (silence_pos, min_silence_ms cctx)
              else (search_end, 0))"

definition make_chunk_info ::
  "'a common_ctx \<Rightarrow> int \<Rightarrow> int \<Rightarrow> int \<Rightarrow> int \<Rightarrow> bool \<Rightarrow> chunk_info" where
  "make_chunk_info cctx boundary buffer_len overlap_offset total_samples is_eof =
     (let cs = (if is_eof \<and> buffer_len - boundary < min_chunk_samples cctx
                then buffer_len else boundary)
      in \<lparr> ci_chunk_samples = cs,
           ci_actual_chunk_samples = cs + overlap_offset,
           ci_overlap_offset = overlap_offset,
           ci_time_offset = cdiv (100 * (total_samples - overlap_offset)) WHISPER_SAMPLE_RATE \<rparr>)"

text \<open>
  The read callback takes the producer's state and \<^verbatim>\<open>n_samples_max\<close>, and yields the
  samples it wrote and the producer's next state; the number of samples is its return
  value. A return value \<open>\<le> 0\<close> (end of stream or an error) is the empty list:
  \<^verbatim>\<open>fill_read_buffer\<close> treats all of them alike.

  \<^verbatim>\<open>fill_read_buffer\<close> is always called with \<^verbatim>\<open>*eof = false\<close>. The result is the
  buffer, the new \<^verbatim>\<open>*eof\<close> and the producer's state.
\<close>

function fill_read_buffer ::
  "('p \<Rightarrow> int \<Rightarrow> 'a list \<times> 'p) \<Rightarrow> int \<Rightarrow> int \<Rightarrow> 'a list \<Rightarrow> 'p \<Rightarrow> 'a list \<times> bool \<times> 'p" where
  "fill_read_buffer rd capacity target_len buffer p =
     (if int (length buffer) < target_len then
        (case rd p (capacity - int (length buffer)) of
           (data, p') \<Rightarrow>
             if data = [] then (buffer, True, p')
             else fill_read_buffer rd capacity target_len (buffer @ data) p')
      else (buffer, False, p))"
  by pat_completeness auto
termination
  by (relation "measure (\<lambda>(rd, capacity, target_len, buffer, p). nat (target_len - int (length buffer)))")
     auto

definition handoff_to_next ::
  "'a common_ctx \<Rightarrow> chunk_info \<Rightarrow> int \<Rightarrow> int \<Rightarrow> bool \<Rightarrow> 'a common_ctx" where
  "handoff_to_next cctx ci total_samples chunk_idx is_eof =
     (let keep_start = ci_actual_chunk_samples ci - overlap_samples cctx;
          keep_start = (if keep_start < 0 then 0 else keep_start);
          keep_len = int (length (read_buffer cctx)) - keep_start;
          buffer' = (if keep_len > 0
                     then take (nat keep_len) (drop (nat keep_start) (read_buffer cctx))
                     else [])
      in cctx\<lparr> read_buffer := buffer',
               total_samples_read := total_samples + ci_chunk_samples ci,
               next_chunk_idx := chunk_idx + 1,
               eof := (if is_eof \<and> keep_len \<le> overlap_samples cctx then True else eof cctx) \<rparr>)"

section \<open>The engine and the stream run (stream.c)\<close>

text \<open>
  What one call of the engine's \<^verbatim>\<open>whisper_full\<close> does, as far as the stream sees it:
  its return value, the invocations of the new-segment callback (each with the segments
  held by the context and the number of new ones), and the prompt tokens and language id
  the context reports afterwards.
\<close>

record full_result =
  full_ret :: int
  full_callbacks :: "(segment list \<times> int) list"
  full_prompt_past :: "whisper_token list"
  full_lang_id :: int

text \<open>
  The collaborators of a stream run: the read callback, whether the worker has a VAD
  context, the engine's VAD on an audio slice (\<open>None\<close> when it detects no speech or yields
  no segment list), the engine's \<^verbatim>\<open>whisper_full\<close> for the chunk of a given index and
  audio, and the host's abort callback, asked after the chunk of a given index (\<open>None\<close>
  when no callback is installed).
\<close>

record ('a, 'p) stream_env =
  read_cb :: "'p \<Rightarrow> int \<Rightarrow> 'a list \<times> 'p"
  vad_ctx :: bool
  whisper_vad :: "'a list \<Rightarrow> vad_segments option"
  whisper_full :: "int \<Rightarrow> 'a list \<Rightarrow> full_result"
  abort_cb :: "(int \<Rightarrow> bool) option"
  whisper_n_text_ctx :: int

definition detect_vad_segments ::
  "('a, 'p) stream_env \<Rightarrow> 'a list \<Rightarrow> int \<Rightarrow> vad_segments option" where
  "detect_vad_segments env audio len =
     (if len \<le> 0 then None
      else
        (case whisper_vad env (take (nat len) audio) of
           None \<Rightarrow> None
         | Some segs \<Rightarrow> if segs = [] then None else Some segs))"

text \<open>
  One line of the stream's log per chunk: the index, the boundary found, the descriptor,
  the total consumed before the chunk, the buffer length after filling, whether the
  producer signalled the end while filling, the buffer length after the hand-off, and the
  engine's return value.
\<close>

record chunk_log =
  log_chunk_idx :: int
  log_boundary :: int
  log_info :: chunk_info
  log_total_samples :: int
  log_buffer_len :: int
  log_eof :: bool
  log_kept_len :: int
  log_ret :: int

record ('a, 'p) stream_state =
  st_cctx :: "'a common_ctx"
  st_tctx :: thread_ctx
  producer :: 'p
  emitted_segments :: "emitted list"
  chunk_logs :: "chunk_log list"

text \<open>\<^verbatim>\<open>pass_context\<close> in single-context mode: the destination is the worker itself.\<close>

definition pass_context :: "'a common_ctx \<Rightarrow> thread_ctx \<Rightarrow> full_result \<Rightarrow> thread_ctx" where
  "pass_context c t res =
     (let written = take (nat (max_ctx_tokens c)) (full_prompt_past res)
      in t\<lparr> tokens := written, n_tokens := int (length written),
            lang_id := full_lang_id res, context_ready := True \<rparr>)"

text \<open>
  \<^verbatim>\<open>process_one_chunk\<close> is written in three parts that follow each other in the
  source: the VAD window and detection (\<open>chunk_vad\<close>, yielding \<^verbatim>\<open>vad_start\<close> and
  \<^verbatim>\<open>vad_segs\<close>), the part from the copy into the worker's buffer to the end
  (\<open>transcribe_chunk\<close>), and the function itself, which waits for its turn, fills the
  buffer, selects the boundary and builds the descriptor in between.
\<close>

definition chunk_vad ::
  "('a, 'p) stream_env \<Rightarrow> 'a common_ctx \<Rightarrow> 'a list \<Rightarrow> int \<Rightarrow> int \<times> vad_segments option" where
  "chunk_vad env c buffer overlap_offset =
     (if vad_ctx env then
        (let margin = 5 * WHISPER_SAMPLE_RATE;
             vad_start = min_chunk_samples c - margin;
             vad_start = (if vad_start < 0 then 0 else vad_start);
             available = int (length buffer) - overlap_offset
         in if vad_start < available then
              (let vad_len = MIN_int (available - vad_start) (max_chunk_samples c - vad_start)
               in if vad_len > 0 then
                    (vad_start,
                     detect_vad_segments env
                       (drop (nat (overlap_offset + vad_start)) buffer) vad_len)
                  else (vad_start, None))
            else (vad_start, None))
      else (0, None))"

text \<open>
  The test \<^verbatim>\<open>cctx->abort_cb != NULL && cctx->abort_cb(...)\<close> after the chunk of a given
  index.
\<close>

definition abort_requested :: "('a, 'p) stream_env \<Rightarrow> int \<Rightarrow> bool" where
  "abort_requested env chunk_idx =
     (case abort_cb env of None \<Rightarrow> False | Some cb \<Rightarrow> cb chunk_idx)"

definition transcribe_chunk ::
  "('a, 'p) stream_env \<Rightarrow> ('a, 'p) stream_state \<Rightarrow> 'a common_ctx \<Rightarrow> chunk_info \<Rightarrow> int
     \<Rightarrow> int \<Rightarrow> int \<Rightarrow> bool \<Rightarrow> int \<times> ('a, 'p) stream_state" where
  "transcribe_chunk env s c ci found_boundary chunk_idx total_samples is_eof =
     (let worker_buffer = take (nat (ci_actual_chunk_samples ci)) (read_buffer c);
          t = (st_tctx s)\<lparr> samples_before_chunk := total_samples,
                            chunk_samples := ci_chunk_samples ci \<rparr>;
          c' = handoff_to_next c ci total_samples chunk_idx is_eof;
          t = t\<lparr> time_offset := ci_time_offset ci,
                 output_start := ci_time_offset ci
                   + cdiv (ci_overlap_offset ci * 100) WHISPER_SAMPLE_RATE \<rparr>;
          res = whisper_full env chunk_idx worker_buffer;
          entry = \<lparr> log_chunk_idx = chunk_idx, log_boundary = found_boundary,
                    log_info = ci, log_total_samples = total_samples,
                    log_buffer_len = int (length (read_buffer c)), log_eof = is_eof,
                    log_kept_len = int (length (read_buffer c')), log_ret = full_ret res \<rparr>
      in case segment_callbacks t (full_callbacks res) of
           (es, t) \<Rightarrow>
             let aborted = abort_requested env chunk_idx;
                 s = s\<lparr> emitted_segments := emitted_segments s @ es,
                        chunk_logs := chunk_logs s @ [entry] \<rparr>
             in if full_ret res \<noteq> 0 \<or> aborted then
                  (full_ret res, s\<lparr>st_cctx := c'\<lparr>eof := True, abort := True\<rparr>, st_tctx := t\<rparr>)
                else (0, s\<lparr>st_cctx := c', st_tctx := pass_context c' t res\<rparr>))"

definition process_one_chunk ::
  "('a, 'p) stream_env \<Rightarrow> ('a, 'p) stream_state \<Rightarrow> int \<times> ('a, 'p) stream_state" where
  "process_one_chunk env s =
     (let c = st_cctx s;
          target_len = max_chunk_samples c + overlap_samples c
      in if eof c then (-1, s)
         else
           let chunk_idx = next_chunk_idx c;
               total_samples = total_samples_read c;
               overlap_offset = (if chunk_idx > 0 then overlap_samples c else 0)
           in case fill_read_buffer (read_cb env) (buffer_size c) target_len
                     (read_buffer c) (producer s) of
                (buffer, is_eof, p') \<Rightarrow>
                  let c = c\<lparr>read_buffer := buffer\<rparr>;
                      buffer_len = int (length buffer);
                      (vad_start, vad_segs) = chunk_vad env c buffer overlap_offset
                  in if buffer_len \<le> overlap_offset then
                       (-1, s\<lparr>st_cctx := c\<lparr>eof := True\<rparr>, producer := p'\<rparr>)
                     else
                       let available = buffer_len - overlap_offset;
                           found_boundary =
                             fst (find_chunk_boundary c available vad_segs vad_start);
                           ci = make_chunk_info c found_boundary available overlap_offset
                                  total_samples is_eof
                       in transcribe_chunk env (s\<lparr>producer := p'\<rparr>) c ci found_boundary
                            chunk_idx total_samples is_eof)"

text \<open>
  The loop \<^verbatim>\<open>while (process_one_chunk(&tctx0) == 0);\<close> run for at most \<open>fuel\<close> calls.
  The flag says whether the loop has ended within them.
\<close>

fun stream_loop ::
  "nat \<Rightarrow> ('a, 'p) stream_env \<Rightarrow> ('a, 'p) stream_state \<Rightarrow> bool \<times> ('a, 'p) stream_state" where
  "stream_loop 0 env s = (False, s)"
| "stream_loop (Suc fuel) env s =
     (case process_one_chunk env s of
        (r, s') \<Rightarrow> if r = 0 then stream_loop fuel env s' else (True, s'))"

record whisper_stream_params =
  min_chunk_ms :: int
  chunk_extend_ms :: int
  overlap_ms :: int
  sp_min_silence_ms :: int
  segment_callback :: bool

text \<open>Whether the three allocations of a single-context run succeed.\<close>

record stream_allocs =
  alloc_read_buffer :: bool
  alloc_worker_buffer :: bool
  alloc_tokens :: bool

definition init_common_ctx ::
  "whisper_stream_params \<Rightarrow> int \<Rightarrow> int \<Rightarrow> int \<Rightarrow> int \<Rightarrow> 'a common_ctx" where
  "init_common_ctx sparams max_tokens overlap min_chunk max_chunk =
     \<lparr> next_chunk_idx = 0, total_samples_read = 0, eof = False, abort = False,
       overlap_samples = overlap, min_chunk_samples = min_chunk,
       max_chunk_samples = max_chunk, min_silence_ms = sp_min_silence_ms sparams,
       max_ctx_tokens = max_tokens, read_buffer = [],
       buffer_size = max_chunk + overlap \<rparr>"

definition init_thread_ctx :: thread_ctx where
  "init_thread_ctx =
     \<lparr> tokens = [], n_tokens = 0, lang_id = -1, context_ready = False,
       time_offset = 0, output_start = 0, last_t1 = 0, segment_cb = False,
       samples_before_chunk = 0, chunk_samples = 0 \<rparr>"

definition init_stream_state ::
  "('a, 'p) stream_env \<Rightarrow> whisper_stream_params \<Rightarrow> 'p \<Rightarrow> ('a, 'p) stream_state" where
  "init_stream_state env sparams p =
     (let min_chunk = cdiv (WHISPER_SAMPLE_RATE * min_chunk_ms sparams) 1000;
          max_chunk = min_chunk + cdiv (WHISPER_SAMPLE_RATE * chunk_extend_ms sparams) 1000;
          overlap = cdiv (WHISPER_SAMPLE_RATE * overlap_ms sparams) 1000;
          max_tokens = cdiv (whisper_n_text_ctx env) 2
      in \<lparr> st_cctx = init_common_ctx sparams max_tokens overlap min_chunk max_chunk,
           st_tctx = init_thread_ctx\<lparr>segment_cb := segment_callback sparams\<rparr>,
           producer = p, emitted_segments = [], chunk_logs = [] \<rparr>)"

text \<open>
  \<^verbatim>\<open>whisper_stream_full\<close>. A violated \<^verbatim>\<open>assert\<close> ends the process; a loop still
  running after \<open>fuel\<close> chunks has not returned.
\<close>

datatype stream_error = AssertionFailed | StillRunning

definition whisper_stream_full ::
  "('a, 'p) stream_env \<Rightarrow> whisper_stream_params \<Rightarrow> stream_allocs \<Rightarrow> 'p \<Rightarrow> nat
     \<Rightarrow> stream_error + int" where
  "whisper_stream_full env sparams allocs p fuel =
     (if \<not> (min_chunk_ms sparams > 0
             \<and> overlap_ms sparams \<ge> 0 \<and> overlap_ms sparams < min_chunk_ms sparams)
      then Inl AssertionFailed
      else if \<not> alloc_read_buffer allocs then Inr (-1)
      else if \<not> (alloc_worker_buffer allocs \<and> alloc_tokens allocs) then Inr (-1)
      else
        (case stream_loop fuel env (init_stream_state env sparams p) of
           (False, s) \<Rightarrow> Inl StillRunning
         | (True, s) \<Rightarrow> Inr (if abort (st_cctx s) then -1 else 0)))"

text \<open>
  The read callback of the command-line driver (\<^verbatim>\<open>file_read_cb\<close> in stream_test.c):
  the producer's state is the samples not yet delivered.
\<close>

definition file_read_cb :: "'a list \<Rightarrow> int \<Rightarrow> 'a list \<times> 'a list" where
  "file_read_cb remaining n_max =
     (let n = (if n_max < int (length remaining) then n_max else int (length remaining))
      in if n > 0 then (take (nat n) remaining, drop (nat n) remaining)
         else ([], remaining))"

section \<open>The boundary policy in the words of the specification\<close>

text \<open>
  The gaps between consecutive speech intervals, in centiseconds, and a time in
  centiseconds as a sample count.
\<close>

fun vad_gaps :: "vad_segments \<Rightarrow> (int \<times> int) list" where
  "vad_gaps (a # b # rest) = (snd a, fst b) # vad_gaps (b # rest)"
| "vad_gaps segs = []"

definition cs_to_samples :: "int \<Rightarrow> int" where
  "cs_to_samples t = (t * WHISPER_SAMPLE_RATE) div 100"

text \<open>
  The boundary as the specification words it. The search range is
  \<open>[search_start, search_end]\<close> in samples. A gap qualifies when it is at least the
  minimum silence wide and, taken as a range of samples, intersects the search range. The
  result for the first qualifying gap (the trailing tail, from the end of the last
  interval to the end of the search range, comes last) is its midpoint, converted to
  samples and clamped into \<open>[search_start, search_end]\<close>. The specification does not say
  how the offset of the VAD window enters; it is added in centiseconds.
\<close>

definition spec_gap_qualifies :: "int \<Rightarrow> int \<Rightarrow> int \<Rightarrow> int \<times> int \<Rightarrow> bool" where
  "spec_gap_qualifies min_silence search_start search_end g =
     ((snd g - fst g) * 10 \<ge> min_silence
      \<and> cs_to_samples (fst g) \<le> search_end \<and> search_start \<le> cs_to_samples (snd g))"

definition spec_chunk_boundary ::
  "int \<Rightarrow> int \<Rightarrow> int \<Rightarrow> int \<Rightarrow> vad_segments option \<Rightarrow> int \<Rightarrow> int" where
  "spec_chunk_boundary min_chunk max_chunk min_silence available vad vad_offset =
     (let search_start = min_chunk;
          search_end = min max_chunk available
      in if search_start \<ge> search_end then search_end
         else
           (case vad of
              None \<Rightarrow> search_start
            | Some segs \<Rightarrow>
                if segs = [] then search_start
                else
                  let off = (vad_offset * 100) div WHISPER_SAMPLE_RATE;
                      tail_end = (search_end * 100) div WHISPER_SAMPLE_RATE;
                      gaps = map (\<lambda>g. (fst g + off, snd g + off)) (vad_gaps segs)
                               @ [(snd (last segs) + off, tail_end)]
                  in (case find (spec_gap_qualifies min_silence search_start search_end) gaps of
                        None \<Rightarrow> search_end
                      | Some g \<Rightarrow>
                          max search_start
                            (min search_end (cs_to_samples ((fst g + snd g) div 2))))))"

section \<open>The boundary policy in whole centiseconds\<close>

text \<open>
  The same policy with the search range taken in whole centiseconds,
  \<open>rs = \<lfloor>search_start * 100 / 16000\<rfloor>\<close> and \<open>re = \<lfloor>search_end * 100 / 16000\<rfloor>\<close>: a gap
  qualifies when it is at least the minimum silence wide and overlaps \<open>[rs, re]\<close> in more
  than an end point, and the midpoint is clamped into \<open>[rs, re]\<close> before it is converted
  to samples.
\<close>

definition cs_gap_qualifies :: "int \<Rightarrow> int \<Rightarrow> int \<Rightarrow> int \<times> int \<Rightarrow> bool" where
  "cs_gap_qualifies min_silence range_start_cs range_end_cs g =
     ((snd g - fst g) * 10 \<ge> min_silence \<and> fst g < range_end_cs \<and> range_start_cs < snd g)"

definition cs_chunk_boundary ::
  "int \<Rightarrow> int \<Rightarrow> int \<Rightarrow> int \<Rightarrow> vad_segments option \<Rightarrow> int \<Rightarrow> int" where
  "cs_chunk_boundary min_chunk max_chunk min_silence available vad vad_offset =
     (let search_start = min_chunk;
          search_end = min max_chunk available
      in if search_start \<ge> search_end then search_end
         else
           (case vad of
              None \<Rightarrow> search_start
            | Some segs \<Rightarrow>
                let off = (vad_offset * 100) div WHISPER_SAMPLE_RATE;
                    rs = (search_start * 100) div WHISPER_SAMPLE_RATE;
                    re = (search_end * 100) div WHISPER_SAMPLE_RATE;
                    gaps = map (\<lambda>g. (fst g + off, snd g + off)) (vad_gaps segs)
                             @ [(snd (last segs) + off, re)]
                in (case find (cs_gap_qualifies min_silence rs re) gaps of
                      None \<Rightarrow> search_end
                    | Some g \<Rightarrow>
                        (max rs (min re ((fst g + snd g) div 2)) * WHISPER_SAMPLE_RATE) div 100)))"
section \<open>Well-formed speech intervals\<close>

text \<open>
  The intervals a voice-activity detector reports: each starts at or after 0 and ends
  after it starts, and each starts no earlier than the one before it ends. The times are
  bounded by \<open>2^27\<close> centiseconds (more than fifteen days), so the width of a gap in
  milliseconds fits the \<^verbatim>\<open>int\<close> it is cast to.
\<close>

fun vad_wellformed :: "vad_segments \<Rightarrow> bool" where
  "vad_wellformed [] = False"
| "vad_wellformed [a] = (0 \<le> fst a \<and> fst a < snd a \<and> snd a \<le> 2 ^ 27)"
| "vad_wellformed (a # b # rest) =
     (0 \<le> fst a \<and> fst a < snd a \<and> snd a \<le> fst b \<and> vad_wellformed (b # rest))"

section \<open>Invariants of the stream loop\<close>

text \<open>
  A list of emitted segments is chained from \<open>lo\<close> when every segment starts no earlier
  than the end of the one before it (\<open>lo\<close> for the first) and ends after it starts;
  \<open>chain_end\<close> is the end of the last one.
\<close>

fun chained :: "int \<Rightarrow> emitted list \<Rightarrow> bool" where
  "chained lo [] = True"
| "chained lo (e # es) = (lo \<le> fst e \<and> fst e < fst (snd e) \<and> chained (fst (snd e)) es)"

fun chain_end :: "int \<Rightarrow> emitted list \<Rightarrow> int" where
  "chain_end lo [] = lo"
| "chain_end lo (e # es) = chain_end (fst (snd e)) es"

text \<open>
  The invariant of the stream loop for emission: what has been emitted is chained from 0
  and \<open>last_t1\<close> is the end of the chain.
\<close>

definition emit_inv :: "('a, 'p) stream_state \<Rightarrow> bool" where
  "emit_inv s \<longleftrightarrow> chained 0 (emitted_segments s)
     \<and> last_t1 (st_tctx s) = chain_end 0 (emitted_segments s)"

text \<open>
  The descriptor of the \<open>i\<close>-th chunk of a log, for overlap \<open>ov\<close>: its index is \<open>i\<close>, the
  total before it is the sum of the chunk sizes before it, and its fields are related as
  \<^verbatim>\<open>make_chunk_info\<close> relates them.
\<close>

definition descriptor_ok :: "int \<Rightarrow> chunk_log list \<Rightarrow> nat \<Rightarrow> bool" where
  "descriptor_ok ov logs i \<longleftrightarrow>
     log_chunk_idx (logs ! i) = int i
   \<and> log_total_samples (logs ! i)
       = sum_list (map (\<lambda>e. ci_chunk_samples (log_info e)) (take i logs))
   \<and> ci_overlap_offset (log_info (logs ! i)) = (if i = 0 then 0 else ov)
   \<and> ci_actual_chunk_samples (log_info (logs ! i))
       = ci_chunk_samples (log_info (logs ! i)) + ci_overlap_offset (log_info (logs ! i))
   \<and> ci_time_offset (log_info (logs ! i))
       = cdiv (100 * (log_total_samples (logs ! i) - ci_overlap_offset (log_info (logs ! i))))
           WHISPER_SAMPLE_RATE"

definition desc_inv :: "int \<Rightarrow> ('a, 'p) stream_state \<Rightarrow> bool" where
  "desc_inv ov s \<longleftrightarrow>
     overlap_samples (st_cctx s) = ov
   \<and> next_chunk_idx (st_cctx s) = int (length (chunk_logs s))
   \<and> total_samples_read (st_cctx s)
       = sum_list (map (\<lambda>e. ci_chunk_samples (log_info e)) (chunk_logs s))
   \<and> list_all (descriptor_ok ov (chunk_logs s)) [0..<length (chunk_logs s)]"

text \<open>
  The EOF tail rule applies to a logged chunk when the producer had signalled the end and
  what the buffer held beyond the boundary was less than the minimum chunk. A chunk is
  sized well when, under the tail rule, it takes all the new samples, and otherwise lies
  between the minimum rounded down to a whole centisecond and the maximum.
\<close>

definition tail_rule :: "int \<Rightarrow> chunk_log \<Rightarrow> bool" where
  "tail_rule mn e \<longleftrightarrow>
     log_eof e \<and> (log_buffer_len e - ci_overlap_offset (log_info e)) - log_boundary e < mn"

definition size_ok :: "int \<Rightarrow> int \<Rightarrow> chunk_log \<Rightarrow> bool" where
  "size_ok mn mx e \<longleftrightarrow>
     (if tail_rule mn e
      then ci_chunk_samples (log_info e) = log_buffer_len e - ci_overlap_offset (log_info e)
      else 160 * (mn div 160) \<le> ci_chunk_samples (log_info e)
         \<and> ci_chunk_samples (log_info e) \<le> mx)"

definition size_inv :: "int \<Rightarrow> int \<Rightarrow> ('a, 'p) stream_state \<Rightarrow> bool" where
  "size_inv mn mx s \<longleftrightarrow>
     min_chunk_samples (st_cctx s) = mn \<and> max_chunk_samples (st_cctx s) = mx
   \<and> 0 \<le> overlap_samples (st_cctx s)
   \<and> list_all (size_ok mn mx) (chunk_logs s)
   \<and> list_all (\<lambda>e. \<not> tail_rule mn e) (butlast (chunk_logs s))
   \<and> (chunk_logs s = [] \<or> \<not> tail_rule mn (last (chunk_logs s)) \<or> eof (st_cctx s))"

text \<open>
  What a hand-off leaves in the buffer, by the log: the length before minus
  \<open>keep_start = max(0, actual_chunk_samples - overlap_samples)\<close>, or nothing.
\<close>

definition handoff_ok :: "int \<Rightarrow> chunk_log \<Rightarrow> bool" where
  "handoff_ok ov e \<longleftrightarrow>
     log_kept_len e
       = max 0 (log_buffer_len e - max 0 (ci_actual_chunk_samples (log_info e) - ov))"

definition entry_capacity_ok :: "int \<Rightarrow> int \<Rightarrow> chunk_log \<Rightarrow> bool" where
  "entry_capacity_ok cap ov e \<longleftrightarrow>
     0 \<le> log_buffer_len e \<and> log_buffer_len e \<le> cap \<and> handoff_ok ov e"

definition capacity_inv :: "('a, 'p) stream_state \<Rightarrow> bool" where
  "capacity_inv s \<longleftrightarrow>
     buffer_size (st_cctx s) = max_chunk_samples (st_cctx s) + overlap_samples (st_cctx s)
   \<and> int (length (read_buffer (st_cctx s))) \<le> buffer_size (st_cctx s)
   \<and> list_all (entry_capacity_ok (buffer_size (st_cctx s)) (overlap_samples (st_cctx s)))
       (chunk_logs s)"

text \<open>
  The abort flag is set exactly when some logged chunk ended with a nonzero engine
  result or with the host asking to abort, and then the stream is at its end.
\<close>

definition chunk_failed :: "('a, 'p) stream_env \<Rightarrow> chunk_log \<Rightarrow> bool" where
  "chunk_failed env e \<longleftrightarrow> log_ret e \<noteq> 0 \<or> abort_requested env (log_chunk_idx e)"

definition abort_inv :: "('a, 'p) stream_env \<Rightarrow> ('a, 'p) stream_state \<Rightarrow> bool" where
  "abort_inv env s \<longleftrightarrow>
     (abort (st_cctx s) \<longleftrightarrow> list_ex (chunk_failed env) (chunk_logs s))
   \<and> (\<not> abort (st_cctx s) \<or> eof (st_cctx s))"

text \<open>
  What decreases with every chunk that lets the loop go on, when \<open>f\<close> bounds the samples
  the producer can still deliver: the samples in the buffer and with the producer, and
  whether the first chunk is still to come.
\<close>

definition run_measure :: "('p \<Rightarrow> nat) \<Rightarrow> ('a, 'p) stream_state \<Rightarrow> nat" where
  "run_measure f s =
     2 * (length (read_buffer (st_cctx s)) + f (producer s))
       + (if next_chunk_idx (st_cctx s) \<le> 0 then 1 else 0)"

section \<open>Example inputs\<close>

text \<open>
  A small run used to instantiate the theorems: 1200 samples from a file, chunks of at
  least 30 ms and at most 60 ms with 10 ms overlap, no VAD context, and an engine that
  reports the same two segments for every chunk.
\<close>

definition example_env :: "(unit, unit list) stream_env" where
  "example_env =
     \<lparr> read_cb = file_read_cb, vad_ctx = False, whisper_vad = (\<lambda>a. None),
       whisper_full = (\<lambda>i a. \<lparr> full_ret = 0,
          full_callbacks = [([\<lparr>seg_t0 = 0, seg_t1 = 2, seg_text = ''a''\<rparr>,
                              \<lparr>seg_t0 = 1, seg_t1 = 5, seg_text = ''b''\<rparr>], 2)],
          full_prompt_past = [], full_lang_id = 0 \<rparr>),
       abort_cb = None, whisper_n_text_ctx = 448 \<rparr>"

definition example_params :: whisper_stream_params where
  "example_params =
     \<lparr> min_chunk_ms = 30, chunk_extend_ms = 30, overlap_ms = 10,
       sp_min_silence_ms = 300, segment_callback = True \<rparr>"

text \<open>A variant of the example run in which the engine fails on the second chunk.\<close>

definition failing_example_env :: "(unit, unit list) stream_env" where
  "failing_example_env =
     example_env\<lparr> whisper_full := (\<lambda>i a. \<lparr> full_ret = (if i = 1 then 7 else 0),
                                              full_callbacks = [], full_prompt_past = [],
                                              full_lang_id = 0 \<rparr>) \<rparr>"

text \<open>
  A variant in which the engine succeeds and the host's abort callback reports true when
  it is asked after the second chunk.
\<close>

definition aborting_example_env :: "(unit, unit list) stream_env" where
  "aborting_example_env =
     example_env\<lparr> whisper_full := (\<lambda>i a. \<lparr> full_ret = 0, full_callbacks = [],
                                               full_prompt_past = [], full_lang_id = 0 \<rparr>),
                   abort_cb := Some (\<lambda>i. i = 1) \<rparr>"

text \<open>
  A run with a VAD context: 50 s of audio (800000 samples), a minimum chunk of 10005 ms
  (160080 samples, not a whole number of centiseconds), 10 s of extension, 300 ms overlap,
  and a detector that reports speech from 0 to 4 s and from 6 s to 15 s of every window.
\<close>

definition vad_example_env :: "(unit, unit list) stream_env" where
  "vad_example_env =
     \<lparr> read_cb = file_read_cb, vad_ctx = True,
       whisper_vad = (\<lambda>a. Some [(0, 400), (600, 1500)]),
       whisper_full = (\<lambda>i a. \<lparr> full_ret = 0, full_callbacks = [],
                                 full_prompt_past = [], full_lang_id = 0 \<rparr>),
       abort_cb = None, whisper_n_text_ctx = 448 \<rparr>"

definition vad_example_params :: whisper_stream_params where
  "vad_example_params =
     \<lparr> min_chunk_ms = 10005, chunk_extend_ms = 10000, overlap_ms = 300,
       sp_min_silence_ms = 300, segment_callback = True \<rparr>"

definition vad_example_state :: "(unit, unit list) stream_state" where
  "vad_example_state =
     snd (stream_loop 2 vad_example_env
            (init_stream_state vad_example_env vad_example_params (replicate 800000 ())))"


section \<open>Arithmetic facts\<close>

lemma cdiv_nonneg: "0 \<le> a \<Longrightarrow> 0 < b \<Longrightarrow> cdiv a b = a div b"
  by (cases "a = 0") (simp_all add: cdiv_def)

lemma cdiv_neg: "a < 0 \<Longrightarrow> 0 < b \<Longrightarrow> cdiv a b = - ((- a) div b)"
  by (simp add: cdiv_def)

lemma int32_cast_id: "- (2 ^ 31) \<le> x \<Longrightarrow> x < 2 ^ 31 \<Longrightarrow> int32_cast x = x"
  unfolding int32_cast_def by (rule signed_take_bit_int_eq_self)

section \<open>Context hand-off and the language override\<close>

text \<open>
  C6. At a context hand-off, when the language callback returns a value other than -1
  and other than the inherited language id, \<^verbatim>\<open>copy_tokens\<close> passes zero tokens and
  the overriding language id to the decoder. Otherwise (no callback, -1, or the inherited
  id) it passes the first \<open>min(n_tokens, max_tokens)\<close> inherited tokens and the inherited
  language id. The arrays are as large as the counts say.
\<close>

theorem copy_tokens_handoff:
  assumes "nat (n_tokens tctx) \<le> length (tokens tctx)"
    and "nat max_tokens \<le> length tokens_out"
    and "copy_tokens language_cb tctx tokens_out max_tokens = (n, out, lang)"
  shows "(language_cb = Some ov \<and> ov \<noteq> -1 \<and> ov \<noteq> lang_id tctx \<longrightarrow>
            n = 0 \<and> take (nat n) out = [] \<and> lang = ov)
       \<and> ((\<forall>v. language_cb = Some v \<longrightarrow> v = -1 \<or> v = lang_id tctx) \<longrightarrow>
            n = min (n_tokens tctx) max_tokens
          \<and> take (nat n) out = take (nat (min (n_tokens tctx) max_tokens)) (tokens tctx)
          \<and> lang = lang_id tctx)"
  using assms
  by (cases language_cb) (auto simp: copy_tokens_def MIN_int_def Let_def min_def split: if_splits)

theorem copy_tokens_handoff_witness:
  "copy_tokens (Some 3) (init_thread_ctx\<lparr>tokens := [11, 12, 13], n_tokens := 3, lang_id := 5\<rparr>)
       [0, 0] 2 = (0, [0, 0], 3)
 \<and> copy_tokens (Some (-1)) (init_thread_ctx\<lparr>tokens := [11, 12, 13], n_tokens := 3, lang_id := 5\<rparr>)
       [0, 0] 2 = (2, [11, 12], 5)
 \<and> (2::int) = min 3 2"
  using copy_tokens_handoff
    [of "init_thread_ctx\<lparr>tokens := [11, 12, 13], n_tokens := 3, lang_id := 5\<rparr>" 2 "[0, 0]"
        "Some 3" 0 "[0, 0]" 3 3]
    copy_tokens_handoff
    [of "init_thread_ctx\<lparr>tokens := [11, 12, 13], n_tokens := 3, lang_id := 5\<rparr>" 2 "[0, 0]"
        "Some (-1)" 2 "[11, 12]" 5 0]
  by (simp add: copy_tokens_def MIN_int_def init_thread_ctx_def)

section \<open>Controller: completion, progress, override sentinel\<close>

lemma nativeStop_funpow_lang_override:
  "lang_override ((nativeStop ^^ k) c) = lang_override c"
  by (induction k) (simp_all add: nativeStop_def)

lemma nativeStop_funpow_start_session:
  "start_session_id ((nativeStop ^^ k) c) = start_session_id c"
  by (induction k) (simp_all add: nativeStop_def)

lemma nativeStop_funpow_session:
  "session_id ((nativeStop ^^ k) c) = session_id c + of_nat k"
  by (induction k) (simp_all add: nativeStop_def)

lemma word32_of_nat_eq_0:
  assumes "k < 2 ^ 32"
  shows "(of_nat k :: 32 word) = 0 \<longleftrightarrow> k = 0"
proof
  assume "(of_nat k :: 32 word) = 0"
  then have "2 ^ LENGTH(32) dvd k" by (simp add: word_of_nat_eq_0_iff)
  then have "(2::nat) ^ 32 dvd k" by simp
  with assms show "k = 0" by (meson dvd_imp_le not_less zero_less_iff_neq_zero)
qed simp

text \<open>
  C7. When the controller starts a run (slot 0 holds a model and the start command carries
  the current session), then after \<^verbatim>\<open>whisper_stream_full\<close> has returned \<open>result\<close> the
  host receives \<open>stream_complete(result = 0)\<close> if the session counter equals the value
  captured at the start, and nothing otherwise. The counter has moved by the number of
  stop/destroy increments made during the run, so (for fewer than \<open>2^32\<close> of them) it is
  unchanged exactly when there was none.
\<close>

theorem stream_complete_iff_session_unchanged:
  assumes "slot_main_loaded ctx" and "args_session_id args = session_id ctx"
  shows "fst (process_start_command ctx args result stops) =
           (if session_id (snd (process_start_command ctx args result stops)) = session_id ctx
            then [OnStreamComplete (result = 0)] else [])
       \<and> session_id (snd (process_start_command ctx args result stops))
           = session_id ctx + of_nat stops
       \<and> (stops < 2 ^ 32 \<longrightarrow>
            (session_id (snd (process_start_command ctx args result stops)) = session_id ctx
               \<longleftrightarrow> stops = 0))"
  using assms word32_of_nat_eq_0 [of stops]
  by (simp add: process_start_command_def Let_def nativeStop_funpow_session
      nativeStop_funpow_start_session)

theorem stream_complete_iff_session_unchanged_witness:
  "fst (process_start_command (nativeCreate\<lparr>slot_main_loaded := True\<rparr>)
          \<lparr>args_num_threads = 4, args_language = None, args_translate = False,
            args_live = False, args_session_id = 0\<rparr> 0 0) = [OnStreamComplete True]
 \<and> fst (process_start_command (nativeCreate\<lparr>slot_main_loaded := True\<rparr>)
          \<lparr>args_num_threads = 4, args_language = None, args_translate = False,
            args_live = False, args_session_id = 0\<rparr> (-1) 0) = [OnStreamComplete False]
 \<and> fst (process_start_command (nativeCreate\<lparr>slot_main_loaded := True\<rparr>)
          \<lparr>args_num_threads = 4, args_language = None, args_translate = False,
            args_live = False, args_session_id = 0\<rparr> 0 1) = []"
  using stream_complete_iff_session_unchanged
    [of "nativeCreate\<lparr>slot_main_loaded := True\<rparr>"
        "\<lparr>args_num_threads = 4, args_language = None, args_translate = False,
          args_live = False, args_session_id = 0\<rparr>" 0 0]
    stream_complete_iff_session_unchanged
    [of "nativeCreate\<lparr>slot_main_loaded := True\<rparr>"
        "\<lparr>args_num_threads = 4, args_language = None, args_translate = False,
          args_live = False, args_session_id = 0\<rparr>" "-1" 0]
    stream_complete_iff_session_unchanged
    [of "nativeCreate\<lparr>slot_main_loaded := True\<rparr>"
        "\<lparr>args_num_threads = 4, args_language = None, args_translate = False,
          args_live = False, args_session_id = 0\<rparr>" 0 1]
  by (simp add: nativeCreate_def)

text \<open>
  C8. With a duration of 1 ms (16 samples) set, six hours of audio consumed before the
  chunk (345600000 samples) and a 30 s chunk (480000 samples) half done, the percentage
  \<open>2161500000\<close> does not fit the \<^verbatim>\<open>int\<close> it is cast to before the clamp to 100, and
  the host receives a negative progress value.
\<close>

theorem progress_overflow_example:
  "jni_progress_callback (nativeSetDuration nativeCreate 1) 50 345600000 480000
     = [OnProgress (- 2133467296)]"
  by (simp add: jni_progress_callback_def nativeSetDuration_def nativeCreate_def cdiv_def
      WHISPER_SAMPLE_RATE_def int32_cast_def Let_def signed_take_bit_eq_take_bit_minus bit_simps)

text \<open>No progress event is delivered while the duration is not positive.\<close>

lemma progress_disabled:
  "duration_samples ctx \<le> 0 \<Longrightarrow> jni_progress_callback ctx p sb cs = []"
  by (simp add: jni_progress_callback_def)

text \<open>
  As long as the product and the percentage fit an \<^verbatim>\<open>int\<close>, the value delivered is
  the clamped quotient and lies between 0 and 100.
\<close>

lemma progress_in_range:
  assumes "0 \<le> p" "p \<le> 100" "0 \<le> sb" "0 \<le> cs" "0 < duration_samples ctx" "thread_env ctx"
    and "((sb + (p * cs) div 100) * 100) div duration_samples ctx < 2 ^ 31"
    and "p * cs < 2 ^ 31"
  shows "jni_progress_callback ctx p sb cs =
           [OnProgress (min 100 (((sb + (p * cs) div 100) * 100) div duration_samples ctx))]"
    and "0 \<le> min 100 (((sb + (p * cs) div 100) * 100) div duration_samples ctx)"
proof -
  let ?d = "sb + (p * cs) div 100"
  let ?q = "(?d * 100) div duration_samples ctx"
  have pc: "0 \<le> p * cs" using assms by simp
  then have d: "0 \<le> ?d" using assms by (simp add: pos_imp_zdiv_nonneg_iff)
  have c0: "int32_cast (p * cs) = p * cs" using pc assms(8) by (intro int32_cast_id) simp_all
  have c1: "cdiv (int32_cast (p * cs)) 100 = (p * cs) div 100"
    using pc by (simp add: c0 cdiv_nonneg)
  have q: "0 \<le> ?q" using d assms by (simp add: pos_imp_zdiv_nonneg_iff)
  have c2: "cdiv (?d * 100) (duration_samples ctx) = ?q" using d assms by (simp add: cdiv_nonneg)
  have c3: "int32_cast ?q = ?q" using q assms(7) by (intro int32_cast_id) simp_all
  show "jni_progress_callback ctx p sb cs = [OnProgress (min 100 ?q)]"
    unfolding jni_progress_callback_def Let_def c1 c2 c3 using assms(5,6) by (simp add: min_def)
  show "0 \<le> min 100 ?q" using q by simp
qed

text \<open>
  C10. The value that means "no override" is -1. A callback value of 0 is taken as
  language id 0 and, when the inherited id is another one, discards the inherited tokens;
  every value other than -1 ends up as the language id passed on; -1 behaves as if no
  callback were installed. The controller's override is -1 after creation, after an
  update with a null language, and at the start of every run.
\<close>

theorem no_override_sentinel_is_minus_one:
  "(lang_id tctx \<noteq> 0 \<longrightarrow> copy_tokens (Some 0) tctx tokens_out max_tokens = (0, tokens_out, 0))
 \<and> (ov \<noteq> -1 \<longrightarrow> snd (snd (copy_tokens (Some ov) tctx tokens_out max_tokens)) = ov)
 \<and> copy_tokens (Some (-1)) tctx tokens_out max_tokens = copy_tokens None tctx tokens_out max_tokens
 \<and> jni_language_callback nativeCreate = -1
 \<and> jni_language_callback (nativeUpdateLanguage whisper_lang_id ctx None) = -1
 \<and> (slot_main_loaded ctx \<and> args_session_id args = session_id ctx \<longrightarrow>
      jni_language_callback (snd (process_start_command ctx args result stops)) = -1)"
  by (simp add: copy_tokens_def Let_def jni_language_callback_def nativeCreate_def
      nativeUpdateLanguage_def process_start_command_def nativeStop_funpow_lang_override)

theorem no_override_sentinel_is_minus_one_witness:
  "copy_tokens (Some 0) (init_thread_ctx\<lparr>tokens := [11, 12, 13], n_tokens := 3, lang_id := 5\<rparr>)
       [0, 0] 2 = (0, [0, 0], 0)
 \<and> snd (snd (copy_tokens (Some 0)
       (init_thread_ctx\<lparr>tokens := [11, 12, 13], n_tokens := 3, lang_id := 5\<rparr>) [0, 0] 2)) = 0
 \<and> jni_language_callback (snd (process_start_command
       (nativeUpdateLanguage (\<lambda>s. 0) (nativeCreate\<lparr>slot_main_loaded := True\<rparr>) (Some ''en''))
       \<lparr>args_num_threads = 4, args_language = None, args_translate = False,
         args_live = False, args_session_id = 0\<rparr> 0 0)) = -1"
  using no_override_sentinel_is_minus_one
    [of "init_thread_ctx\<lparr>tokens := [11, 12, 13], n_tokens := 3, lang_id := 5\<rparr>" "[0, 0]" 2 0
        "\<lambda>s. 0"
        "nativeUpdateLanguage (\<lambda>s. 0) (nativeCreate\<lparr>slot_main_loaded := True\<rparr>) (Some ''en'')"
        "\<lparr>args_num_threads = 4, args_language = None, args_translate = False,
          args_live = False, args_session_id = 0\<rparr>" 0 0]
  by (simp add: init_thread_ctx_def nativeUpdateLanguage_def nativeCreate_def)

section \<open>Chains of emitted segments\<close>


lemma chained_append:
  "chained lo (xs @ ys) \<longleftrightarrow> chained lo xs \<and> chained (chain_end lo xs) ys"
  by (induction xs arbitrary: lo) auto

lemma chain_end_append: "chain_end lo (xs @ ys) = chain_end (chain_end lo xs) ys"
  by (induction xs arbitrary: lo) auto

lemma chained_lower: "chained lo es \<Longrightarrow> \<forall>e\<in>set es. lo \<le> fst e \<and> lo < fst (snd e) \<and> fst e < fst (snd e)"
  by (induction es arbitrary: lo) fastforce+

lemma chained_sorted:
  "chained lo es \<Longrightarrow> sorted (map fst es) \<and> sorted (map (fst \<circ> snd) es)"
proof (induction es arbitrary: lo)
  case Nil
  then show ?case by simp
next
  case (Cons e es)
  then have tl: "chained (fst (snd e)) es" and e: "fst e < fst (snd e)" by simp_all
  from chained_lower [OF tl] e Cons.IH [OF tl] show ?case by fastforce
qed

lemma segment_step_eq:
  "segment_step tctx seg =
     (let t0 = max (max (seg_t0 seg + time_offset tctx) (output_start tctx)) (last_t1 tctx);
          t1 = min (seg_t1 seg + time_offset tctx)
                 (time_offset tctx + cdiv (chunk_samples tctx * 100) WHISPER_SAMPLE_RATE)
      in if t0 \<ge> t1 then (None, tctx)
         else (Some (t0, t1, seg_text seg), tctx\<lparr>last_t1 := t1\<rparr>))"
  by (simp add: segment_step_def Let_def max_def min_def)

lemma segment_step_chain:
  assumes "segment_step tctx seg = (r, tctx')"
  shows "case r of None \<Rightarrow> tctx' = tctx
         | Some e \<Rightarrow> last_t1 tctx \<le> fst e \<and> fst e < fst (snd e) \<and> tctx' = tctx\<lparr>last_t1 := fst (snd e)\<rparr>"
  using assms unfolding segment_step_eq Let_def by (auto split: if_splits)

lemma segment_loop_chain:
  "segment_loop tctx segs = (es, tctx') \<Longrightarrow>
     chained (last_t1 tctx) es \<and> tctx' = tctx\<lparr>last_t1 := chain_end (last_t1 tctx) es\<rparr>"
proof (induction segs arbitrary: tctx es tctx')
  case Nil
  then show ?case by simp
next
  case (Cons seg segs)
  obtain r t1 where step: "segment_step tctx seg = (r, t1)" by (cases "segment_step tctx seg")
  note sc = segment_step_chain [OF step]
  show ?case
  proof (cases r)
    case None
    with step Cons.prems have "segment_loop t1 segs = (es, tctx')" by simp
    from Cons.IH [OF this] sc None show ?thesis by simp
  next
    case (Some e)
    obtain es1 t2 where rest: "segment_loop t1 segs = (es1, t2)" by (cases "segment_loop t1 segs")
    with step Some Cons.prems have es: "es = e # es1" and t2: "tctx' = t2" by simp_all
    from Cons.IH [OF rest] sc Some show ?thesis unfolding es t2 by simp
  qed
qed

lemma stream_segment_callback_chain:
  "stream_segment_callback tctx segs n_new = (es, tctx') \<Longrightarrow>
     chained (last_t1 tctx) es \<and> tctx' = tctx\<lparr>last_t1 := chain_end (last_t1 tctx) es\<rparr>"
  by (auto simp: stream_segment_callback_def Let_def split: if_splits dest: segment_loop_chain)

lemma segment_callbacks_chain:
  "segment_callbacks tctx cbs = (es, tctx') \<Longrightarrow>
     chained (last_t1 tctx) es \<and> tctx' = tctx\<lparr>last_t1 := chain_end (last_t1 tctx) es\<rparr>"
proof (induction cbs arbitrary: tctx es tctx')
  case Nil
  then show ?case by simp
next
  case (Cons cb cbs)
  obtain segs n_new where cb: "cb = (segs, n_new)" by (cases cb)
  obtain es1 t1 where first: "stream_segment_callback tctx segs n_new = (es1, t1)"
    by (cases "stream_segment_callback tctx segs n_new")
  obtain es2 t2 where rest: "segment_callbacks t1 cbs = (es2, t2)"
    by (cases "segment_callbacks t1 cbs")
  from Cons.prems cb first rest have es: "es = es1 @ es2" and t2: "tctx' = t2" by simp_all
  from stream_segment_callback_chain [OF first] Cons.IH [OF rest]
  show ?case unfolding es t2 by (simp add: chained_append chain_end_append)
qed

section \<open>The shape of one step of the stream loop\<close>

lemma transcribe_chunk_cases:
  assumes "transcribe_chunk env s c ci fb idx tot is_eof = (r, s')"
  obtains es t' where
    "segment_callbacks ((st_tctx s)\<lparr> samples_before_chunk := tot,
         chunk_samples := ci_chunk_samples ci, time_offset := ci_time_offset ci,
         output_start := ci_time_offset ci + cdiv (ci_overlap_offset ci * 100) WHISPER_SAMPLE_RATE \<rparr>)
       (full_callbacks (whisper_full env idx (take (nat (ci_actual_chunk_samples ci)) (read_buffer c))))
       = (es, t')"
    "emitted_segments s' = emitted_segments s @ es"
    "chunk_logs s' = chunk_logs s @
        [\<lparr> log_chunk_idx = idx, log_boundary = fb, log_info = ci, log_total_samples = tot,
           log_buffer_len = int (length (read_buffer c)), log_eof = is_eof,
           log_kept_len = int (length (read_buffer (handoff_to_next c ci tot idx is_eof))),
           log_ret = r \<rparr>]"
    "producer s' = producer s"
    "last_t1 (st_tctx s') = last_t1 t'"
    "r = full_ret (whisper_full env idx (take (nat (ci_actual_chunk_samples ci)) (read_buffer c)))"
    "st_cctx s' = (if full_ret (whisper_full env idx (take (nat (ci_actual_chunk_samples ci)) (read_buffer c))) \<noteq> 0
                     \<or> abort_requested env idx
                   then (handoff_to_next c ci tot idx is_eof)\<lparr>eof := True, abort := True\<rparr>
                   else handoff_to_next c ci tot idx is_eof)"
proof -
  let ?t = "(st_tctx s)\<lparr> samples_before_chunk := tot,
         chunk_samples := ci_chunk_samples ci, time_offset := ci_time_offset ci,
         output_start := ci_time_offset ci + cdiv (ci_overlap_offset ci * 100) WHISPER_SAMPLE_RATE \<rparr>"
  let ?res = "whisper_full env idx (take (nat (ci_actual_chunk_samples ci)) (read_buffer c))"
  obtain es t' where cb: "segment_callbacks ?t (full_callbacks ?res) = (es, t')"
    by (cases "segment_callbacks ?t (full_callbacks ?res)")
  show thesis
  proof (rule that [OF cb])
    show "emitted_segments s' = emitted_segments s @ es"
      using assms cb by (auto simp: transcribe_chunk_def Let_def split: if_splits)
    show "chunk_logs s' = chunk_logs s @
        [\<lparr> log_chunk_idx = idx, log_boundary = fb, log_info = ci, log_total_samples = tot,
           log_buffer_len = int (length (read_buffer c)), log_eof = is_eof,
           log_kept_len = int (length (read_buffer (handoff_to_next c ci tot idx is_eof))),
           log_ret = r \<rparr>]"
      using assms cb by (auto simp: transcribe_chunk_def Let_def split: if_splits)
    show "producer s' = producer s"
      using assms cb by (auto simp: transcribe_chunk_def Let_def split: if_splits)
    show "last_t1 (st_tctx s') = last_t1 t'"
      using assms cb by (auto simp: transcribe_chunk_def Let_def pass_context_def split: if_splits)
    show "r = full_ret ?res"
      using assms cb by (auto simp: transcribe_chunk_def Let_def split: if_splits)
    show "st_cctx s' = (if full_ret ?res \<noteq> 0
                     \<or> abort_requested env idx
                   then (handoff_to_next c ci tot idx is_eof)\<lparr>eof := True, abort := True\<rparr>
                   else handoff_to_next c ci tot idx is_eof)"
      using assms cb by (auto simp: transcribe_chunk_def Let_def split: if_splits)
  qed
qed


lemma process_one_chunk_cases [consumes 1, case_names Eof Drained Chunk]:
  assumes "process_one_chunk env s = (r, s')"
  obtains
    (Eof) "eof (st_cctx s)" "r = -1" "s' = s"
  | (Drained) buffer is_eof p' where
      "\<not> eof (st_cctx s)"
      "fill_read_buffer (read_cb env) (buffer_size (st_cctx s))
         (max_chunk_samples (st_cctx s) + overlap_samples (st_cctx s))
         (read_buffer (st_cctx s)) (producer s) = (buffer, is_eof, p')"
      "int (length buffer)
         \<le> (if next_chunk_idx (st_cctx s) > 0 then overlap_samples (st_cctx s) else 0)"
      "r = -1"
      "s' = s\<lparr>st_cctx := (st_cctx s)\<lparr>read_buffer := buffer, eof := True\<rparr>, producer := p'\<rparr>"
  | (Chunk) buffer is_eof p' vad_start vad_segs c1 oo avail fb where
      "\<not> eof (st_cctx s)"
      "fill_read_buffer (read_cb env) (buffer_size (st_cctx s))
         (max_chunk_samples (st_cctx s) + overlap_samples (st_cctx s))
         (read_buffer (st_cctx s)) (producer s) = (buffer, is_eof, p')"
      "c1 = (st_cctx s)\<lparr>read_buffer := buffer\<rparr>"
      "oo = (if next_chunk_idx (st_cctx s) > 0 then overlap_samples (st_cctx s) else 0)"
      "avail = int (length buffer) - oo"
      "0 < avail"
      "chunk_vad env c1 buffer oo = (vad_start, vad_segs)"
      "fb = fst (find_chunk_boundary c1 avail vad_segs vad_start)"
      "transcribe_chunk env (s\<lparr>producer := p'\<rparr>) c1
         (make_chunk_info c1 fb avail oo (total_samples_read (st_cctx s)) is_eof)
         fb (next_chunk_idx (st_cctx s)) (total_samples_read (st_cctx s)) is_eof = (r, s')"
proof (cases "eof (st_cctx s)")
  case True
  with assms have "r = -1" "s' = s" by (simp_all add: process_one_chunk_def)
  with True show thesis by (rule Eof)
next
  case False
  let ?c = "st_cctx s"
  let ?oo = "if next_chunk_idx ?c > 0 then overlap_samples ?c else 0"
  obtain buffer is_eof p' where
    fill: "fill_read_buffer (read_cb env) (buffer_size ?c)
             (max_chunk_samples ?c + overlap_samples ?c) (read_buffer ?c) (producer s)
           = (buffer, is_eof, p')"
    by (metis prod_cases3)
  let ?c1 = "?c\<lparr>read_buffer := buffer\<rparr>"
  obtain vad_start vad_segs where vad: "chunk_vad env ?c1 buffer ?oo = (vad_start, vad_segs)"
    by (cases "chunk_vad env ?c1 buffer ?oo")
  show thesis
  proof (cases "int (length buffer) \<le> ?oo")
    case True
    from assms False fill vad True
    have "r = -1"
      "s' = s\<lparr>st_cctx := ?c\<lparr>read_buffer := buffer, eof := True\<rparr>, producer := p'\<rparr>"
      by (simp_all add: process_one_chunk_def Let_def)
    with False fill True show thesis by (rule Drained)
  next
    case gt: False
    let ?avail = "int (length buffer) - ?oo"
    let ?fb = "fst (find_chunk_boundary ?c1 ?avail vad_segs vad_start)"
    from assms False fill vad gt
    have "transcribe_chunk env (s\<lparr>producer := p'\<rparr>) ?c1
         (make_chunk_info ?c1 ?fb ?avail ?oo (total_samples_read ?c) is_eof)
         ?fb (next_chunk_idx ?c) (total_samples_read ?c) is_eof = (r, s')"
      by (simp add: process_one_chunk_def Let_def)
    moreover from gt have "0 < ?avail" by simp
    ultimately show thesis using False fill vad
      by (intro Chunk [of buffer is_eof p' ?c1 ?oo ?avail vad_start vad_segs ?fb]) simp_all
  qed
qed


section \<open>Segment emission\<close>

lemma process_one_chunk_emit_inv:
  assumes "emit_inv s" and "process_one_chunk env s = (r, s')"
  shows "emit_inv s'"
  using assms(2)
proof (cases rule: process_one_chunk_cases)
  case Eof
  with assms show ?thesis by simp
next
  case (Drained buffer is_eof p')
  with assms show ?thesis by (simp add: emit_inv_def)
next
  case (Chunk buffer is_eof p' vad_start vad_segs c1 oo avail fb)
  from Chunk(9) show ?thesis
  proof (cases rule: transcribe_chunk_cases)
    case (1 es t')
    from segment_callbacks_chain [OF 1(1)] assms(1) 1(2,5)
    show ?thesis by (simp add: emit_inv_def chained_append chain_end_append)
  qed
qed

lemma stream_loop_emit_inv:
  "emit_inv s \<Longrightarrow> emit_inv (snd (stream_loop fuel env s))"
proof (induction fuel arbitrary: s)
  case 0
  then show ?case by simp
next
  case (Suc fuel)
  obtain r s' where step: "process_one_chunk env s = (r, s')"
    by (cases "process_one_chunk env s")
  from process_one_chunk_emit_inv [OF Suc.prems step] have "emit_inv s'" .
  with Suc.IH [of s'] step show ?case by simp
qed

lemma init_emit_inv: "emit_inv (init_stream_state env sparams p)"
  by (simp add: emit_inv_def init_stream_state_def init_thread_ctx_def Let_def)

text \<open>
  C1. For a segment the engine reports, with \<open>t0 = max(t0_raw + time_offset, output_start,
  last_t1)\<close> and \<open>t1 = min(t1_raw + time_offset, time_offset + chunk_samples * 100 /
  sample_rate)\<close>, the loop body of \<^verbatim>\<open>stream_segment_callback\<close> drops the segment
  when \<open>t0 \<ge> t1\<close> and otherwise emits \<open>(t0, t1, text)\<close> and sets \<open>last_t1\<close> to \<open>t1\<close>.
  Hence, after any number of chunks of a stream run, the segments emitted so far have
  non-decreasing \<open>t0\<close> and \<open>t1\<close>, and \<open>t0 < t1\<close> each.
\<close>

theorem segment_clipping_and_monotone_emission:
  "segment_step tctx seg =
     (let t0 = max (max (seg_t0 seg + time_offset tctx) (output_start tctx)) (last_t1 tctx);
          t1 = min (seg_t1 seg + time_offset tctx)
                 (time_offset tctx + cdiv (chunk_samples tctx * 100) WHISPER_SAMPLE_RATE)
      in if t0 \<ge> t1 then (None, tctx)
         else (Some (t0, t1, seg_text seg), tctx\<lparr>last_t1 := t1\<rparr>))
 \<and> (let es = emitted_segments (snd (stream_loop fuel env (init_stream_state env sparams p)))
    in sorted (map fst es) \<and> sorted (map (fst \<circ> snd) es)
       \<and> (\<forall>e\<in>set es. fst e < fst (snd e)))"
proof -
  have "emit_inv (snd (stream_loop fuel env (init_stream_state env sparams p)))"
    by (rule stream_loop_emit_inv [OF init_emit_inv])
  then have "chained 0 (emitted_segments (snd (stream_loop fuel env (init_stream_state env sparams p))))"
    by (simp add: emit_inv_def)
  from chained_sorted [OF this] chained_lower [OF this] segment_step_eq [of tctx seg]
  show ?thesis by (simp add: Let_def)
qed

lemma cdiv_numeral:
  "cdiv (numeral a) (numeral b) = numeral a div numeral b"
  "cdiv 0 (numeral b) = 0"
  by (simp_all add: cdiv_def)

lemmas run_defs =
  abort_requested_def init_stream_state_def init_common_ctx_def init_thread_ctx_def
  process_one_chunk_def transcribe_chunk_def chunk_vad_def find_chunk_boundary_def
  make_chunk_info_def handoff_to_next_def pass_context_def stream_segment_callback_def
  segment_step_def file_read_cb_def MIN_int_def WHISPER_SAMPLE_RATE_def Let_def
  cdiv_numeral

lemma example_run:
  "stream_loop 3 example_env (init_stream_state example_env example_params (replicate 1200 ()))
     = (True,
        \<lparr> st_cctx =
            \<lparr> next_chunk_idx = 2, total_samples_read = 1200, eof = True, abort = False,
              overlap_samples = 160, min_chunk_samples = 480, max_chunk_samples = 960,
              min_silence_ms = 300, max_ctx_tokens = 224, read_buffer = replicate 160 (),
              buffer_size = 1120 \<rparr>,
          st_tctx =
            \<lparr> tokens = [], n_tokens = 0, lang_id = 0, context_ready = True,
              time_offset = 2, output_start = 3, last_t1 = 6, segment_cb = True,
              samples_before_chunk = 480, chunk_samples = 720 \<rparr>,
          producer = [],
          emitted_segments = [(0, 2, ''a''), (2, 3, ''b''), (3, 4, ''a''), (4, 6, ''b'')],
          chunk_logs =
            [\<lparr> log_chunk_idx = 0, log_boundary = 480,
               log_info = \<lparr> ci_chunk_samples = 480, ci_actual_chunk_samples = 480,
                            ci_overlap_offset = 0, ci_time_offset = 0 \<rparr>,
               log_total_samples = 0, log_buffer_len = 1120, log_eof = False,
               log_kept_len = 800, log_ret = 0 \<rparr>,
             \<lparr> log_chunk_idx = 1, log_boundary = 480,
               log_info = \<lparr> ci_chunk_samples = 720, ci_actual_chunk_samples = 880,
                            ci_overlap_offset = 160, ci_time_offset = 2 \<rparr>,
               log_total_samples = 480, log_buffer_len = 880, log_eof = True,
               log_kept_len = 160, log_ret = 0 \<rparr>] \<rparr>)"
  by (simp add: example_env_def example_params_def numeral_3_eq_3 run_defs
      replicate_add [symmetric])

theorem segment_clipping_and_monotone_emission_witness:
  "segment_step (init_thread_ctx\<lparr>time_offset := 2, output_start := 3, last_t1 := 4,
                                 chunk_samples := 720\<rparr>)
       \<lparr>seg_t0 = 1, seg_t1 = 5, seg_text = ''b''\<rparr>
     = (Some (4, 6, ''b''),
        init_thread_ctx\<lparr>time_offset := 2, output_start := 3, last_t1 := 6,
                         chunk_samples := 720\<rparr>)
 \<and> emitted_segments (snd (stream_loop 3 example_env
         (init_stream_state example_env example_params (replicate 1200 ()))))
     = [(0, 2, ''a''), (2, 3, ''b''), (3, 4, ''a''), (4, 6, ''b'')]
 \<and> sorted [0, 2, 3, 4 :: int] \<and> sorted [2, 3, 4, 6 :: int]
 \<and> list_all (\<lambda>e. fst e < fst (snd e))
       [(0, 2, ''a''), (2, 3, ''b''), (3, 4, ''a''), (4 :: int, 6 :: int, ''b'')]"
  using segment_clipping_and_monotone_emission
    [of "init_thread_ctx\<lparr>time_offset := 2, output_start := 3, last_t1 := 4,
                          chunk_samples := 720\<rparr>"
        "\<lparr>seg_t0 = 1, seg_t1 = 5, seg_text = ''b''\<rparr>"
        3 example_env example_params "replicate 1200 ()"]
  unfolding example_run
  by (simp add: init_thread_ctx_def WHISPER_SAMPLE_RATE_def cdiv_numeral)

section \<open>Boundary selection\<close>



lemma vad_wellformed_bounds:
  "vad_wellformed segs \<Longrightarrow> \<forall>a\<in>set segs. 0 \<le> fst a \<and> fst a < snd a \<and> snd a \<le> 2 ^ 27"
  by (induction segs rule: vad_wellformed.induct) auto

lemma vad_wellformed_tl: "vad_wellformed (a # b # rest) \<Longrightarrow> vad_wellformed (b # rest)"
  by simp

lemma vad_gaps_after:
  "vad_wellformed segs \<Longrightarrow> \<forall>g\<in>set (vad_gaps segs). snd (hd segs) \<le> fst g \<and> fst g \<le> snd g"
proof (induction segs rule: vad_wellformed.induct)
  case (3 a b rest)
  then have wf: "vad_wellformed (b # rest)" and ab: "snd a \<le> fst b" and b: "fst b < snd b"
    using vad_wellformed_bounds [of "b # rest"] by auto
  from 3(1) [OF wf] have "\<forall>g\<in>set (vad_gaps (b # rest)). snd b \<le> fst g \<and> fst g \<le> snd g" by simp
  with ab b show ?case by auto
qed simp_all

lemma vad_gaps_bounds:
  "vad_wellformed segs \<Longrightarrow> \<forall>g\<in>set (vad_gaps segs). 1 \<le> fst g \<and> fst g \<le> snd g \<and> snd g \<le> 2 ^ 27"
proof (induction segs rule: vad_wellformed.induct)
  case (3 a b rest)
  then have wf: "vad_wellformed (b # rest)" by simp
  from vad_wellformed_bounds [OF wf] have "snd b \<le> 2 ^ 27" "fst b < snd b" by auto
  with 3 wf show ?case by auto
qed simp_all

lemma vad_wellformed_last:
  "vad_wellformed segs \<Longrightarrow> 1 \<le> snd (last segs) \<and> snd (last segs) \<le> 2 ^ 27"
proof -
  assume wf: "vad_wellformed segs"
  then have "segs \<noteq> []" by auto
  then have "last segs \<in> set segs" by simp
  with vad_wellformed_bounds [OF wf]
  have "0 \<le> fst (last segs)" "fst (last segs) < snd (last segs)" "snd (last segs) \<le> 2 ^ 27"
    by blast+
  then show ?thesis by linarith
qed


lemma check_gap_spec:
  assumes r: "0 \<le> rs" "rs \<le> re" "re * 160 < 2 ^ 31"
    and g: "0 \<le> gs" "gs \<le> 200000000" "0 \<le> ge" "ge \<le> 200000000"
  shows "check_gap gs ge rs re ms =
     (if cs_gap_qualifies ms rs re (gs, ge)
      then (max rs (min re ((gs + ge) div 2)) * WHISPER_SAMPLE_RATE) div 100 else -1)"
proof -
  have w: "int32_cast ((ge - gs) * 10) = (ge - gs) * 10"
    using g by (intro int32_cast_id) simp_all
  have m: "cdiv (gs + ge) 2 = (gs + ge) div 2" using g by (simp add: cdiv_nonneg)
  let ?c = "max rs (min re ((gs + ge) div 2))"
  have c: "rs \<le> ?c" "?c \<le> re" using r by simp_all
  then have c0: "0 \<le> ?c" using r by linarith
  have conv: "cdiv (?c * WHISPER_SAMPLE_RATE) 100 = ?c * 160"
    using c0 by (simp add: cdiv_nonneg WHISPER_SAMPLE_RATE_def)
  have conv': "(?c * WHISPER_SAMPLE_RATE) div 100 = ?c * 160"
    by (simp add: WHISPER_SAMPLE_RATE_def)
  have cast: "int32_cast (?c * 160) = ?c * 160"
    using c0 c r by (intro int32_cast_id) simp_all
  have clamp: "(let mid = (gs + ge) div 2;
                    mid = (if mid < rs then rs else mid);
                    mid = (if mid > re then re else mid) in mid) = ?c"
    using r by (simp add: Let_def max_def min_def)
  show ?thesis
    unfolding check_gap_def Let_def w m cs_gap_qualifies_def conv'
    using clamp conv cast
    by (auto simp: Let_def max_def min_def split: if_splits)
qed

lemma check_gap_positive:
  assumes r: "0 \<le> rs" "rs \<le> re"
    and g: "1 \<le> gs" "gs \<le> ge" and q: "cs_gap_qualifies ms rs re (gs, ge)"
  shows "0 < (max rs (min re ((gs + ge) div 2)) * WHISPER_SAMPLE_RATE) div 100"
proof -
  have "gs \<le> (gs + ge) div 2" using g by linarith
  moreover have "gs < re" using q by (simp add: cs_gap_qualifies_def)
  ultimately have "1 \<le> max rs (min re ((gs + ge) div 2))" using g by linarith
  then show ?thesis by (simp add: WHISPER_SAMPLE_RATE_def)
qed


lemma find_SomeD: "find P xs = Some x \<Longrightarrow> P x \<and> x \<in> set xs"
  by (induction xs) (auto split: if_splits)

lemma find_snoc:
  "find P (xs @ [y]) = (case find P xs of None \<Rightarrow> (if P y then Some y else None) | Some x \<Rightarrow> Some x)"
  by (induction xs) auto

lemma clamped_samples_nonneg:
  "0 \<le> rs \<Longrightarrow> 0 \<le> (max rs (min re m) * WHISPER_SAMPLE_RATE) div 100"
  by (simp add: WHISPER_SAMPLE_RATE_def)

lemma silence_loop_skip:
  "fst b + off \<le> rs \<Longrightarrow>
     silence_loop (a # b # rest) off rs re ms = silence_loop (b # rest) off rs re ms"
  by (simp add: Let_def)

lemma silence_loop_break:
  "\<not> fst b + off \<le> rs \<Longrightarrow> re \<le> snd a + off \<Longrightarrow>
     silence_loop (a # b # rest) off rs re ms = None"
  by (simp add: Let_def)

lemma silence_loop_check:
  "\<not> fst b + off \<le> rs \<Longrightarrow> \<not> re \<le> snd a + off \<Longrightarrow>
     silence_loop (a # b # rest) off rs re ms =
       (if check_gap (snd a + off) (fst b + off) rs re ms \<ge> 0
        then Some (check_gap (snd a + off) (fst b + off) rs re ms)
        else silence_loop (b # rest) off rs re ms)"
  by (simp add: Let_def)

lemma silence_loop_spec:
  assumes "0 \<le> off" "off \<le> 2 ^ 24" "0 \<le> rs" "rs \<le> re" "re * 160 < 2 ^ 31"
  shows "vad_wellformed segs \<Longrightarrow>
     silence_loop segs off rs re ms =
       map_option (\<lambda>g. (max rs (min re ((fst g + snd g) div 2)) * WHISPER_SAMPLE_RATE) div 100)
         (find (cs_gap_qualifies ms rs re)
            (map (\<lambda>g. (fst g + off, snd g + off)) (vad_gaps segs)))"
proof (induction segs rule: vad_wellformed.induct)
  case 1
  then show ?case by simp
next
  case (2 a)
  then show ?case by simp
next
  case (3 a b rest)
  define gs where "gs = snd a + off"
  define ge where "ge = fst b + off"
  define Q where "Q = cs_gap_qualifies ms rs re"
  define val where
    "val = (\<lambda>g :: int \<times> int. (max rs (min re ((fst g + snd g) div 2)) * WHISPER_SAMPLE_RATE) div 100)"
  define shift where "shift = (\<lambda>g :: int \<times> int. (fst g + off, snd g + off))"
  from 3(2) have wf: "vad_wellformed (b # rest)" by simp
  have IH: "silence_loop (b # rest) off rs re ms
              = map_option val (find Q (map shift (vad_gaps (b # rest))))"
    unfolding val_def Q_def shift_def by (rule 3(1) [OF wf])
  have gaps: "map shift (vad_gaps (a # b # rest)) = (gs, ge) # map shift (vad_gaps (b # rest))"
    by (simp add: shift_def gs_def ge_def)
  from 3(2) have a: "0 \<le> fst a" "fst a < snd a" "snd a \<le> fst b" by simp_all
  from vad_wellformed_bounds [OF wf] have b: "fst b < snd b" "snd b \<le> 2 ^ 27" by auto
  have g: "0 \<le> gs" "gs \<le> 200000000" "0 \<le> ge" "ge \<le> 200000000"
    using a b assms(1,2) by (simp_all add: gs_def ge_def)
  have cg: "check_gap gs ge rs re ms = (if Q (gs, ge) then val (gs, ge) else -1)"
    unfolding Q_def val_def using check_gap_spec [OF assms(3,4,5) g, of ms] by simp
  have goal: "silence_loop (a # b # rest) off rs re ms
                = map_option val (find Q (map shift (vad_gaps (a # b # rest))))"
  proof (cases "ge \<le> rs")
    case True
    then have nq: "\<not> Q (gs, ge)" by (simp add: Q_def cs_gap_qualifies_def)
    have "silence_loop (a # b # rest) off rs re ms = silence_loop (b # rest) off rs re ms"
      using True unfolding ge_def by (rule silence_loop_skip)
    with IH nq show ?thesis unfolding gaps by simp
  next
    case ge: False
    show ?thesis
    proof (cases "re \<le> gs")
      case True
      have "\<forall>g\<in>set (vad_gaps (a # b # rest)). snd a \<le> fst g"
        using vad_gaps_after [OF 3(2)] by simp
      then have "\<forall>g\<in>set (map shift (vad_gaps (a # b # rest))). \<not> Q g"
        using True by (auto simp: Q_def shift_def gs_def cs_gap_qualifies_def)
      then have "find Q (map shift (vad_gaps (a # b # rest))) = None"
        by (simp only: find_None_iff) blast
      moreover have "silence_loop (a # b # rest) off rs re ms = None"
        using ge True unfolding ge_def gs_def by (rule silence_loop_break)
      ultimately show ?thesis by simp
    next
      case gs: False
      have step: "silence_loop (a # b # rest) off rs re ms =
                    (if check_gap gs ge rs re ms \<ge> 0 then Some (check_gap gs ge rs re ms)
                     else silence_loop (b # rest) off rs re ms)"
        using ge gs unfolding ge_def gs_def by (rule silence_loop_check)
      show ?thesis
      proof (cases "Q (gs, ge)")
        case True
        have "0 \<le> val (gs, ge)" unfolding val_def using assms(3) by (rule clamped_samples_nonneg)
        with True cg show ?thesis unfolding step gaps by simp
      next
        case False
        with cg IH show ?thesis unfolding step gaps by simp
      qed
    qed
  qed
  then show ?case unfolding val_def Q_def shift_def .
qed
lemma cs_of_samples_bounds:
  assumes "0 \<le> n" "n < 2 ^ 31"
  shows "0 \<le> (n * 100) div WHISPER_SAMPLE_RATE"
    and "(n * 100) div WHISPER_SAMPLE_RATE \<le> 2 ^ 24"
    and "((n * 100) div WHISPER_SAMPLE_RATE) * 160 \<le> n"
proof -
  have eq: "(n * 100) div WHISPER_SAMPLE_RATE = n div 160"
    by (simp add: WHISPER_SAMPLE_RATE_def)
  show "0 \<le> (n * 100) div WHISPER_SAMPLE_RATE" unfolding eq using assms by simp
  show "(n * 100) div WHISPER_SAMPLE_RATE \<le> 2 ^ 24" unfolding eq using assms by simp
  show "((n * 100) div WHISPER_SAMPLE_RATE) * 160 \<le> n" unfolding eq by simp
qed

lemma cs_of_samples_mono:
  "a \<le> b \<Longrightarrow> (a * 100) div WHISPER_SAMPLE_RATE \<le> (b * 100) div WHISPER_SAMPLE_RATE"
  by (simp add: WHISPER_SAMPLE_RATE_def zdiv_mono1)

lemma samples_to_cs:
  "0 \<le> n \<Longrightarrow> cdiv (n * 100) WHISPER_SAMPLE_RATE = (n * 100) div WHISPER_SAMPLE_RATE"
  by (simp add: cdiv_nonneg WHISPER_SAMPLE_RATE_def)


lemma qualifying_gap_positive:
  assumes wf: "vad_wellformed segs" and off: "0 \<le> off" and r: "0 \<le> rs" "rs \<le> re"
    and f: "find (cs_gap_qualifies ms rs re)
              (map (\<lambda>g. (fst g + off, snd g + off)) (vad_gaps segs)
                 @ [(snd (last segs) + off, re)]) = Some g"
  shows "0 < (max rs (min re ((fst g + snd g) div 2)) * WHISPER_SAMPLE_RATE) div 100"
proof -
  note fd = find_SomeD [OF f]
  from fd have q: "cs_gap_qualifies ms rs re g" by (rule conjunct1)
  from fd have "g \<in> set (map (\<lambda>g. (fst g + off, snd g + off)) (vad_gaps segs)
                 @ [(snd (last segs) + off, re)])" by (rule conjunct2)
  then consider (tail) "g = (snd (last segs) + off, re)"
    | (pair) g' where "g' \<in> set (vad_gaps segs)" "g = (fst g' + off, snd g' + off)"
    by auto
  then have "1 \<le> fst g \<and> fst g \<le> snd g"
  proof cases
    case tail
    from vad_wellformed_last [OF wf] off have "1 \<le> snd (last segs) + off" by linarith
    moreover from q tail have "snd (last segs) + off < re" by (simp add: cs_gap_qualifies_def)
    ultimately show ?thesis using tail by simp
  next
    case (pair g')
    from vad_gaps_bounds [OF wf] pair(1) have "1 \<le> fst g'" "fst g' \<le> snd g'" by blast+
    with off pair(2) show ?thesis by simp
  qed
  then have "1 \<le> fst g" "fst g \<le> snd g" by blast+
  moreover from q have "cs_gap_qualifies ms rs re (fst g, snd g)" by simp
  ultimately show ?thesis using check_gap_positive [OF r] by blast
qed


lemma find_silence_in_segments_spec:
  assumes wf: "vad_wellformed segs"
    and ss: "0 \<le> ss" "ss \<le> se" "se < 2 ^ 31" and vo: "0 \<le> vo" "vo < 2 ^ 31"
  defines "off \<equiv> (vo * 100) div WHISPER_SAMPLE_RATE"
    and "rs \<equiv> (ss * 100) div WHISPER_SAMPLE_RATE"
    and "re \<equiv> (se * 100) div WHISPER_SAMPLE_RATE"
  shows "find_silence_in_segments (Some segs) ss se ms vo =
     (case find (cs_gap_qualifies ms rs re)
             (map (\<lambda>g. (fst g + off, snd g + off)) (vad_gaps segs)
                @ [(snd (last segs) + off, re)]) of
        None \<Rightarrow> -1
      | Some g \<Rightarrow> (max rs (min re ((fst g + snd g) div 2)) * WHISPER_SAMPLE_RATE) div 100)"
proof -
  define Q where "Q = cs_gap_qualifies ms rs re"
  define val where
    "val = (\<lambda>g :: int \<times> int. (max rs (min re ((fst g + snd g) div 2)) * WHISPER_SAMPLE_RATE) div 100)"
  define gaps where "gaps = map (\<lambda>g. (fst g + off, snd g + off)) (vad_gaps segs)"
  define tl where "tl = snd (last segs) + off"
  from wf have ne: "segs \<noteq> []" by auto
  have se0: "0 \<le> se" using ss by linarith
  have ss31: "ss < 2 ^ 31" using ss by linarith
  have c_off: "cdiv (vo * 100) WHISPER_SAMPLE_RATE = off"
    unfolding off_def using vo by (simp add: samples_to_cs)
  have c_rs: "cdiv (ss * 100) WHISPER_SAMPLE_RATE = rs"
    unfolding rs_def using ss by (simp add: samples_to_cs)
  have c_re: "cdiv (se * 100) WHISPER_SAMPLE_RATE = re"
    unfolding re_def using se0 by (simp add: samples_to_cs)
  have offb: "0 \<le> off" "off \<le> 2 ^ 24"
    unfolding off_def using cs_of_samples_bounds [OF vo] by blast+
  have rs0: "0 \<le> rs" unfolding rs_def using cs_of_samples_bounds [OF ss(1) ss31] by blast
  have rsre: "rs \<le> re" unfolding rs_def re_def using ss(2) by (rule cs_of_samples_mono)
  have reb: "re * 160 < 2 ^ 31"
    unfolding re_def using cs_of_samples_bounds(3) [OF se0 ss(3)] ss(3) by linarith
  have re0: "0 \<le> re" "re \<le> 200000000"
    unfolding re_def using cs_of_samples_bounds(1,2) [OF se0 ss(3)] by simp_all
  have loop: "silence_loop segs off rs re ms = map_option val (find Q gaps)"
    unfolding val_def Q_def gaps_def by (rule silence_loop_spec [OF offb rs0 rsre reb wf])
  from vad_wellformed_last [OF wf] offb
  have tlb: "0 \<le> tl" "tl \<le> 200000000" unfolding tl_def by simp_all
  have tail: "check_gap tl re rs re ms = (if Q (tl, re) then val (tl, re) else -1)"
    unfolding Q_def val_def using check_gap_spec [OF rs0 rsre reb tlb re0, of ms] by simp
  have "find_silence_in_segments (Some segs) ss se ms vo =
          (case silence_loop segs off rs re ms of
             Some pos \<Rightarrow> pos
           | None \<Rightarrow> check_gap tl re rs re ms)"
    unfolding find_silence_in_segments_def Let_def c_off c_rs c_re tl_def using ne by simp
  also have "\<dots> = (case find Q gaps of
                      Some g \<Rightarrow> val g
                    | None \<Rightarrow> (if Q (tl, re) then val (tl, re) else -1))"
    unfolding loop tail by (cases "find Q gaps") simp_all
  also have "\<dots> = (case find Q (gaps @ [(tl, re)]) of None \<Rightarrow> -1 | Some g \<Rightarrow> val g)"
    unfolding find_snoc by (cases "find Q gaps") simp_all
  finally show ?thesis unfolding Q_def val_def gaps_def tl_def .
qed

text \<open>
  C2. For well-formed speech intervals and sample counts that are C \<^verbatim>\<open>int\<close>s, the
  boundary \<^verbatim>\<open>find_chunk_boundary\<close> returns is that of the policy in whole
  centiseconds: \<open>search_end\<close> when \<open>search_start \<ge> search_end\<close>, \<open>search_start\<close> without
  VAD intervals, otherwise, for the first gap (the trailing tail last) that is at least
  \<open>min_silence_ms\<close> wide and overlaps the search range rounded down to centiseconds in
  more than an end point, its midpoint clamped into that rounded range and converted to
  samples, and \<open>search_end\<close> when there is none.
\<close>

theorem find_chunk_boundary_centisecond_policy:
  assumes cfg: "0 \<le> min_chunk_samples cctx" "max_chunk_samples cctx < 2 ^ 31"
    and off: "0 \<le> vad_offset" "vad_offset < 2 ^ 31"
    and vad: "\<forall>segs. vad = Some segs \<longrightarrow> vad_wellformed segs"
  shows "fst (find_chunk_boundary cctx available vad vad_offset) =
           cs_chunk_boundary (min_chunk_samples cctx) (max_chunk_samples cctx)
             (min_silence_ms cctx) available vad vad_offset"
proof -
  define ss where "ss = min_chunk_samples cctx"
  define se where "se = min (max_chunk_samples cctx) available"
  define ms where "ms = min_silence_ms cctx"
  have se: "MIN_int (max_chunk_samples cctx) available = se"
    by (simp add: MIN_int_def min_def se_def)
  have code: "fst (find_chunk_boundary cctx available vad vad_offset) =
          (if ss \<ge> se then se
           else if vad = None then ss
           else if find_silence_in_segments vad ss se ms vad_offset > 0
                then find_silence_in_segments vad ss se ms vad_offset else se)"
    unfolding find_chunk_boundary_def Let_def se ss_def [symmetric] ms_def [symmetric] by simp
  show ?thesis
  proof (cases "ss \<ge> se")
    case True
    then show ?thesis unfolding code
      by (simp add: cs_chunk_boundary_def Let_def ss_def se_def)
  next
    case lt: False
    show ?thesis
    proof (cases vad)
      case None
      with lt show ?thesis unfolding code
        by (simp add: cs_chunk_boundary_def Let_def ss_def se_def)
    next
      case (Some segs)
      with vad have wf: "vad_wellformed segs" by simp
      define off where "off = (vad_offset * 100) div WHISPER_SAMPLE_RATE"
      define rs where "rs = (ss * 100) div WHISPER_SAMPLE_RATE"
      define re where "re = (se * 100) div WHISPER_SAMPLE_RATE"
      define found where "found = find (cs_gap_qualifies ms rs re)
             (map (\<lambda>g. (fst g + off, snd g + off)) (vad_gaps segs)
                @ [(snd (last segs) + off, re)])"
      define val where
        "val = (\<lambda>g :: int \<times> int. (max rs (min re ((fst g + snd g) div 2)) * WHISPER_SAMPLE_RATE) div 100)"
      have ss0: "0 \<le> ss" "ss \<le> se" "se < 2 ^ 31"
        using cfg lt unfolding ss_def se_def by linarith+
      have offb: "0 \<le> off" unfolding off_def using cs_of_samples_bounds [OF off] by blast
      have rs0: "0 \<le> rs" unfolding rs_def using cs_of_samples_bounds(1) [of ss] ss0 by linarith
      have rsre: "rs \<le> re" unfolding rs_def re_def using ss0(2) by (rule cs_of_samples_mono)
      have fs: "find_silence_in_segments vad ss se ms vad_offset =
                  (case found of None \<Rightarrow> -1 | Some g \<Rightarrow> val g)"
        unfolding Some found_def val_def off_def rs_def re_def
        by (rule find_silence_in_segments_spec [OF wf ss0 off])
      have spec: "cs_chunk_boundary (min_chunk_samples cctx) (max_chunk_samples cctx)
             (min_silence_ms cctx) available vad vad_offset =
               (case found of None \<Rightarrow> se | Some g \<Rightarrow> val g)"
        using lt unfolding cs_chunk_boundary_def Let_def Some found_def val_def off_def rs_def
          re_def ss_def se_def ms_def by simp
      show ?thesis
      proof (cases found)
        case None
        with lt Some show ?thesis unfolding code spec fs by simp
      next
        case (Some g)
        then have "0 < val g"
          unfolding found_def val_def by (rule qualifying_gap_positive [OF wf offb rs0 rsre])
        with lt \<open>vad = Some segs\<close> Some show ?thesis unfolding code spec fs by simp
      qed
    qed
  qed
qed


theorem find_chunk_boundary_centisecond_policy_witness:
  "vad_wellformed [(0, 400), (700, 1500)]
 \<and> fst (find_chunk_boundary
         (init_common_ctx example_params 224 4800 160000 320000 :: unit common_ctx)
         324800 (Some [(0, 400), (700, 1500)]) 80000) = 168000
 \<and> cs_chunk_boundary 160000 320000 300 324800 (Some [(0, 400), (700, 1500)]) 80000 = 168000"
  using find_chunk_boundary_centisecond_policy
    [of "init_common_ctx example_params 224 4800 160000 320000 :: unit common_ctx"
        80000 "Some [(0, 400), (700, 1500)]" 324800]
  by (simp add: init_common_ctx_def example_params_def cs_chunk_boundary_def
      cs_gap_qualifies_def WHISPER_SAMPLE_RATE_def)

text \<open>
  C2 as stated fails: the boundary is not always the midpoint clamped into
  \<open>[search_start, search_end]\<close>, and a gap that meets the range need not count. With a search range from 160000 to 200050 samples and a gap from 12 s to 14 s, the
  midpoint lies beyond the range and the boundary is 200000, the end of the range rounded
  down to a centisecond, not 200050. With a search range that starts at 160080 samples
  and a gap from 9 s to 11 s, the boundary is 160000, before the start of the range.
  And a gap from 8 s to 10 s, which meets a search range from 160000 to 320000 samples in
  its first sample only, is passed over: the boundary is the end of the range, not the
  start.
\<close>

theorem find_chunk_boundary_clamp_counterexample:
  "fst (find_chunk_boundary
         (init_common_ctx example_params 224 4800 160000 320000 :: unit common_ctx)
         200050 (Some [(0, 1200), (1400, 1500)]) 0) = 200000
 \<and> spec_chunk_boundary 160000 320000 300 200050 (Some [(0, 1200), (1400, 1500)]) 0 = 200050
 \<and> fst (find_chunk_boundary
         (init_common_ctx example_params 224 4800 160080 320080 :: unit common_ctx)
         320000 (Some [(0, 900), (1100, 2000)]) 0) = 160000
 \<and> spec_chunk_boundary 160080 320080 300 320000 (Some [(0, 900), (1100, 2000)]) 0 = 160080
 \<and> fst (find_chunk_boundary
         (init_common_ctx example_params 224 4800 160000 320000 :: unit common_ctx)
         320000 (Some [(0, 800), (1000, 1990)]) 0) = 320000
 \<and> spec_chunk_boundary 160000 320000 300 320000 (Some [(0, 800), (1000, 1990)]) 0 = 160000"
  by (simp add: find_chunk_boundary_def find_silence_in_segments_def check_gap_def
      init_common_ctx_def example_params_def MIN_int_def cdiv_def int32_cast_def Let_def
      WHISPER_SAMPLE_RATE_def spec_chunk_boundary_def spec_gap_qualifies_def
      cs_to_samples_def signed_take_bit_eq_take_bit_minus bit_simps)

section \<open>Chunk descriptors\<close>


lemma handoff_to_next_fields:
  "next_chunk_idx (handoff_to_next c ci tot idx e) = idx + 1"
  "total_samples_read (handoff_to_next c ci tot idx e) = tot + ci_chunk_samples ci"
  "overlap_samples (handoff_to_next c ci tot idx e) = overlap_samples c"
  "min_chunk_samples (handoff_to_next c ci tot idx e) = min_chunk_samples c"
  "max_chunk_samples (handoff_to_next c ci tot idx e) = max_chunk_samples c"
  "min_silence_ms (handoff_to_next c ci tot idx e) = min_silence_ms c"
  "max_ctx_tokens (handoff_to_next c ci tot idx e) = max_ctx_tokens c"
  "buffer_size (handoff_to_next c ci tot idx e) = buffer_size c"
  "abort (handoff_to_next c ci tot idx e) = abort c"
  by (simp_all add: handoff_to_next_def Let_def)

lemma make_chunk_info_fields:
  "ci_overlap_offset (make_chunk_info c b len oo tot e) = oo"
  "ci_actual_chunk_samples (make_chunk_info c b len oo tot e)
     = ci_chunk_samples (make_chunk_info c b len oo tot e) + oo"
  "ci_time_offset (make_chunk_info c b len oo tot e) = cdiv (100 * (tot - oo)) WHISPER_SAMPLE_RATE"
  "ci_chunk_samples (make_chunk_info c b len oo tot e)
     = (if e \<and> len - b < min_chunk_samples c then len else b)"
  by (simp_all add: make_chunk_info_def Let_def)

lemma descriptor_ok_append:
  "i < length logs \<Longrightarrow> descriptor_ok ov (logs @ [e]) i = descriptor_ok ov logs i"
  by (simp add: descriptor_ok_def nth_append)

lemma process_one_chunk_desc_inv:
  assumes inv: "desc_inv ov s" and step: "process_one_chunk env s = (r, s')"
  shows "desc_inv ov s'"
  using step
proof (cases rule: process_one_chunk_cases)
  case Eof
  with inv show ?thesis by simp
next
  case (Drained buffer is_eof p')
  with inv show ?thesis by (simp add: desc_inv_def)
next
  case (Chunk buffer is_eof p' vad_start vad_segs c1 oo avail fb)
  define ci where "ci = make_chunk_info c1 fb avail oo (total_samples_read (st_cctx s)) is_eof"
  define n where "n = length (chunk_logs s)"
  from inv have ov: "overlap_samples (st_cctx s) = ov"
    and idx: "next_chunk_idx (st_cctx s) = int n"
    and tot: "total_samples_read (st_cctx s)
                = sum_list (map (\<lambda>e. ci_chunk_samples (log_info e)) (chunk_logs s))"
    and old: "list_all (descriptor_ok ov (chunk_logs s)) [0..<n]"
    by (simp_all add: desc_inv_def n_def)
  from Chunk(9) show ?thesis unfolding ci_def [symmetric]
  proof (cases rule: transcribe_chunk_cases)
    case (1 es t')
    define entry where "entry = \<lparr> log_chunk_idx = next_chunk_idx (st_cctx s), log_boundary = fb,
        log_info = ci, log_total_samples = total_samples_read (st_cctx s),
        log_buffer_len = int (length (read_buffer c1)), log_eof = is_eof,
        log_kept_len = int (length (read_buffer (handoff_to_next c1 ci
                         (total_samples_read (st_cctx s)) (next_chunk_idx (st_cctx s)) is_eof))),
        log_ret = r \<rparr>"
    have logs: "chunk_logs s' = chunk_logs s @ [entry]" using 1(3) by (simp add: entry_def)
    have c': "overlap_samples (st_cctx s') = ov"
      "next_chunk_idx (st_cctx s') = int n + 1"
      "total_samples_read (st_cctx s') = total_samples_read (st_cctx s) + ci_chunk_samples ci"
      using 1(7) ov idx Chunk(3) by (simp_all add: handoff_to_next_fields)
    have oo: "oo = (if n = 0 then 0 else ov)" using Chunk(4) idx ov by simp
    have new: "descriptor_ok ov (chunk_logs s @ [entry]) n"
      unfolding descriptor_ok_def
      using idx tot oo by (simp add: n_def [symmetric] nth_append entry_def ci_def make_chunk_info_fields)
    have "list_all (descriptor_ok ov (chunk_logs s @ [entry])) [0..<n]"
      using old by (simp add: list_all_iff descriptor_ok_append n_def)
    with new have all: "list_all (descriptor_ok ov (chunk_logs s')) [0..<length (chunk_logs s')]"
      unfolding logs by (simp add: n_def)
    show ?thesis
      unfolding desc_inv_def using c' all tot by (simp add: logs n_def entry_def)
  qed
qed

lemma stream_loop_desc_inv:
  "desc_inv ov s \<Longrightarrow> desc_inv ov (snd (stream_loop fuel env s))"
proof (induction fuel arbitrary: s)
  case 0
  then show ?case by simp
next
  case (Suc fuel)
  obtain r s' where step: "process_one_chunk env s = (r, s')"
    by (cases "process_one_chunk env s")
  from process_one_chunk_desc_inv [OF Suc.prems step] have "desc_inv ov s'" .
  with Suc.IH [of s'] step show ?case by simp
qed

lemma init_desc_inv:
  "desc_inv (overlap_samples (st_cctx (init_stream_state env sparams p)))
     (init_stream_state env sparams p)"
  by (simp add: desc_inv_def init_stream_state_def init_common_ctx_def Let_def)

text \<open>
  C5. After any number of chunks of a run, the \<open>i\<close>-th chunk logged has index \<open>i\<close>, its
  \<open>samples_before\<close> is the sum of \<open>chunk_samples\<close> over the chunks before it, its
  \<open>overlap_offset\<close> is 0 for \<open>i = 0\<close> and \<open>overlap_samples\<close> otherwise, its
  \<open>actual_chunk_samples\<close> is \<open>chunk_samples + overlap_offset\<close>, and its \<open>time_offset\<close> is
  \<open>100 * (samples_before - overlap_offset) / sample_rate\<close> in C's integer arithmetic.
\<close>

theorem chunk_descriptor_invariant:
  "let logs = chunk_logs (snd (stream_loop fuel env (init_stream_state env sparams p)));
             ov = overlap_samples (st_cctx (init_stream_state env sparams p))
         in \<forall>i < length logs.
              log_chunk_idx (logs ! i) = int i
            \<and> log_total_samples (logs ! i)
                = sum_list (map (\<lambda>e. ci_chunk_samples (log_info e)) (take i logs))
            \<and> ci_overlap_offset (log_info (logs ! i)) = (if i = 0 then 0 else ov)
            \<and> ci_actual_chunk_samples (log_info (logs ! i))
                = ci_chunk_samples (log_info (logs ! i)) + ci_overlap_offset (log_info (logs ! i))
            \<and> ci_time_offset (log_info (logs ! i))
                = cdiv (100 * (log_total_samples (logs ! i)
                                - ci_overlap_offset (log_info (logs ! i)))) WHISPER_SAMPLE_RATE"
proof -
  define ov where "ov = overlap_samples (st_cctx (init_stream_state env sparams p))"
  define logs where
    "logs = chunk_logs (snd (stream_loop fuel env (init_stream_state env sparams p)))"
  have "desc_inv ov (snd (stream_loop fuel env (init_stream_state env sparams p)))"
    unfolding ov_def by (rule stream_loop_desc_inv [OF init_desc_inv])
  then have "list_all (descriptor_ok ov logs) [0..<length logs]"
    by (simp add: desc_inv_def logs_def)
  then have "\<forall>i < length logs. descriptor_ok ov logs i" by (simp add: list_all_iff)
  then show ?thesis
    unfolding Let_def ov_def [symmetric] logs_def [symmetric] descriptor_ok_def by blast
qed


theorem chunk_descriptor_invariant_witness:
  "(let logs = chunk_logs (snd (stream_loop 3 example_env
                 (init_stream_state example_env example_params (replicate 1200 ()))))
    in length logs = 2
     \<and> log_chunk_idx (logs ! 1) = 1
     \<and> log_total_samples (logs ! 1) = 480
     \<and> ci_chunk_samples (log_info (logs ! 0)) = 480
     \<and> ci_overlap_offset (log_info (logs ! 1)) = 160
     \<and> ci_chunk_samples (log_info (logs ! 1)) = 720
     \<and> ci_actual_chunk_samples (log_info (logs ! 1)) = 880
     \<and> ci_time_offset (log_info (logs ! 1)) = 2)"
  using chunk_descriptor_invariant [of 3 example_env example_params "replicate 1200 ()"]
  unfolding example_run
  by (simp add: init_stream_state_def init_common_ctx_def)


section \<open>Chunk sizes\<close>


lemma check_gap_range:
  assumes "0 \<le> rs" "rs \<le> re" "re * 160 < 2 ^ 31"
  shows "check_gap gs ge rs re ms = -1
       \<or> (rs * 160 \<le> check_gap gs ge rs re ms \<and> check_gap gs ge rs re ms \<le> re * 160)"
proof -
  define m where "m = cdiv (gs + ge) 2"
  define c where "c = (let mid = (if m < rs then rs else m) in if mid > re then re else mid)"
  have c: "rs \<le> c" "c \<le> re" using assms by (simp_all add: c_def Let_def)
  then have c0: "0 \<le> c" using assms by linarith
  have conv: "cdiv (c * WHISPER_SAMPLE_RATE) 100 = c * 160"
    using c0 by (simp add: cdiv_nonneg WHISPER_SAMPLE_RATE_def)
  have cast: "int32_cast (c * 160) = c * 160"
    using c0 c assms by (intro int32_cast_id) simp_all
  have "check_gap gs ge rs re ms = -1 \<or> check_gap gs ge rs re ms = c * 160"
    unfolding check_gap_def Let_def m_def [symmetric]
    using conv cast by (simp add: c_def Let_def)
  with c show ?thesis by auto
qed

lemma silence_loop_range:
  assumes r: "0 \<le> rs" "rs \<le> re" "re * 160 < 2 ^ 31"
  shows "silence_loop segs off rs re ms = Some pos \<Longrightarrow> rs * 160 \<le> pos \<and> pos \<le> re * 160"
proof (induction segs rule: vad_gaps.induct)
  case (1 a b rest)
  show ?case
  proof (cases "fst b + off \<le> rs")
    case True
    with 1 show ?thesis by (simp add: silence_loop_skip)
  next
    case ge: False
    show ?thesis
    proof (cases "re \<le> snd a + off")
      case True
      with ge 1(2) show ?thesis by (simp add: silence_loop_break)
    next
      case gs: False
      note step = silence_loop_check [OF ge gs, of rest ms]
      show ?thesis
      proof (cases "check_gap (snd a + off) (fst b + off) rs re ms \<ge> 0")
        case True
        with step 1(2) have "pos = check_gap (snd a + off) (fst b + off) rs re ms" by simp
        with True check_gap_range [OF r, of "snd a + off" "fst b + off" ms] show ?thesis
          by linarith
      next
        case False
        with step 1 show ?thesis by simp
      qed
    qed
  qed
qed simp_all

lemma find_silence_in_segments_range:
  assumes ss: "0 \<le> ss" "ss \<le> se" "se < 2 ^ 31"
  shows "find_silence_in_segments vad ss se ms vo = -1
       \<or> (160 * (ss div 160) \<le> find_silence_in_segments vad ss se ms vo
          \<and> find_silence_in_segments vad ss se ms vo \<le> se)"
proof -
  define off where "off = cdiv (vo * 100) WHISPER_SAMPLE_RATE"
  define rs where "rs = (ss * 100) div WHISPER_SAMPLE_RATE"
  define re where "re = (se * 100) div WHISPER_SAMPLE_RATE"
  have se0: "0 \<le> se" using ss by linarith
  have ss31: "ss < 2 ^ 31" using ss by linarith
  have c_rs: "cdiv (ss * 100) WHISPER_SAMPLE_RATE = rs"
    unfolding rs_def using ss by (simp add: samples_to_cs)
  have c_re: "cdiv (se * 100) WHISPER_SAMPLE_RATE = re"
    unfolding re_def using se0 by (simp add: samples_to_cs)
  have rs0: "0 \<le> rs" unfolding rs_def using cs_of_samples_bounds [OF ss(1) ss31] by blast
  have rsre: "rs \<le> re" unfolding rs_def re_def using ss(2) by (rule cs_of_samples_mono)
  have re_se: "re * 160 \<le> se" unfolding re_def by (rule cs_of_samples_bounds(3) [OF se0 ss(3)])
  then have reb: "re * 160 < 2 ^ 31" using ss(3) by linarith
  have rs_ss: "rs * 160 = 160 * (ss div 160)" by (simp add: rs_def WHISPER_SAMPLE_RATE_def)
  have in_range: "160 * (ss div 160) \<le> x \<and> x \<le> se" if "rs * 160 \<le> x \<and> x \<le> re * 160" for x
    using that re_se rs_ss by linarith
  show ?thesis
  proof (cases vad)
    case None
    then show ?thesis by (simp add: find_silence_in_segments_def)
  next
    case (Some segs)
    show ?thesis
    proof (cases "segs = []")
      case True
      with Some show ?thesis by (simp add: find_silence_in_segments_def)
    next
      case ne: False
      have eq: "find_silence_in_segments vad ss se ms vo =
                  (case silence_loop segs off rs re ms of
                     Some pos \<Rightarrow> pos
                   | None \<Rightarrow> check_gap (snd (last segs) + off) re rs re ms)"
        unfolding find_silence_in_segments_def Let_def c_rs c_re off_def Some using ne by simp
      show ?thesis
      proof (cases "silence_loop segs off rs re ms")
        case None
        with eq check_gap_range [OF rs0 rsre reb, of "snd (last segs) + off" re ms] in_range
        show ?thesis by auto
      next
        case (Some pos)
        with eq silence_loop_range [OF rs0 rsre reb Some] in_range show ?thesis by auto
      qed
    qed
  qed
qed

lemma find_chunk_boundary_range:
  fixes c :: "'a common_ctx" and avail :: int and vad :: "vad_segments option" and vo :: int
  assumes cfg: "0 \<le> min_chunk_samples c" "max_chunk_samples c < 2 ^ 31"
  defines "fb \<equiv> fst (find_chunk_boundary c avail vad vo)"
  defines "se \<equiv> min (max_chunk_samples c) avail"
  shows "fb \<le> se \<or> fb = se"
    and "min_chunk_samples c < se \<Longrightarrow> 160 * (min_chunk_samples c div 160) \<le> fb \<and> fb \<le> se"
    and "se \<le> min_chunk_samples c \<Longrightarrow> fb = se"
    and "vad = None \<Longrightarrow> min_chunk_samples c < se \<Longrightarrow> fb = min_chunk_samples c"
proof -
  define ss where "ss = min_chunk_samples c"
  define ms where "ms = min_silence_ms c"
  define fs where "fs = find_silence_in_segments vad ss se ms vo"
  have se: "MIN_int (max_chunk_samples c) avail = se" by (simp add: MIN_int_def min_def se_def)
  have code: "fb = (if ss \<ge> se then se else if vad = None then ss
                    else if fs > 0 then fs else se)"
    unfolding fb_def find_chunk_boundary_def Let_def se ss_def [symmetric] ms_def [symmetric]
      fs_def by simp
  have se31: "se < 2 ^ 31" unfolding se_def using cfg(2) by simp
  have ss0: "0 \<le> ss" unfolding ss_def by (rule cfg(1))
  have low: "160 * (ss div 160) \<le> ss" by simp
  have rng: "ss < se \<Longrightarrow> fs = -1 \<or> (160 * (ss div 160) \<le> fs \<and> fs \<le> se)"
    unfolding fs_def using find_silence_in_segments_range [OF ss0 _ se31, of vad ms vo] by simp
  show c3: "se \<le> min_chunk_samples c \<Longrightarrow> fb = se" unfolding code ss_def by simp
  show c2: "min_chunk_samples c < se \<Longrightarrow> 160 * (min_chunk_samples c div 160) \<le> fb \<and> fb \<le> se"
    using rng low unfolding code ss_def [symmetric] by auto
  show "fb \<le> se \<or> fb = se" using c2 c3 by linarith
  show "vad = None \<Longrightarrow> min_chunk_samples c < se \<Longrightarrow> fb = min_chunk_samples c"
    unfolding code ss_def by simp
qed

lemma fill_read_buffer_post:
  "fill_read_buffer rd cap target buf p = (buf', e, p') \<Longrightarrow>
     (\<not> e \<longrightarrow> target \<le> int (length buf')) \<and> length buf \<le> length buf'"
proof (induction rd cap target buf p rule: fill_read_buffer.induct)
  case (1 rd cap target buf p)
  show ?case
  proof (cases "int (length buf) < target")
    case False
    with "1.prems" show ?thesis by (simp add: fill_read_buffer.simps [of rd cap target buf p])
  next
    case True
    obtain data q where rd: "rd p (cap - int (length buf)) = (data, q)"
      by (cases "rd p (cap - int (length buf))")
    show ?thesis
    proof (cases "data = []")
      case True
      with \<open>int (length buf) < target\<close> rd "1.prems" show ?thesis
        by (simp add: fill_read_buffer.simps [of rd cap target buf p])
    next
      case False
      with True rd "1.prems" have "fill_read_buffer rd cap target (buf @ data) q = (buf', e, p')"
        by (simp add: fill_read_buffer.simps [of rd cap target buf p])
      from "1.IH" [OF True rd [symmetric] False this] show ?thesis by simp
    qed
  qed
qed

lemma fill_read_buffer_capacity:
  "\<forall>q n. int (length (fst (rd q n))) \<le> max 0 n \<Longrightarrow>
   fill_read_buffer rd cap target buf p = (buf', e, p') \<Longrightarrow>
     int (length buf) \<le> cap \<Longrightarrow> target \<le> cap \<Longrightarrow> int (length buf') \<le> cap"
proof (induction rd cap target buf p rule: fill_read_buffer.induct)
  case (1 rd cap target buf p)
  show ?case
  proof (cases "int (length buf) < target")
    case False
    with "1.prems" show ?thesis by (simp add: fill_read_buffer.simps [of rd cap target buf p])
  next
    case True
    obtain data q where rd: "rd p (cap - int (length buf)) = (data, q)"
      by (cases "rd p (cap - int (length buf))")
    show ?thesis
    proof (cases "data = []")
      case True
      with \<open>int (length buf) < target\<close> rd "1.prems" show ?thesis
        by (simp add: fill_read_buffer.simps [of rd cap target buf p])
    next
      case False
      with True rd "1.prems" have run: "fill_read_buffer rd cap target (buf @ data) q = (buf', e, p')"
        by (simp add: fill_read_buffer.simps [of rd cap target buf p])
      from "1.prems"(1) have "int (length (fst (rd p (cap - int (length buf))))) \<le> max 0 (cap - int (length buf))"
        by blast
      with rd "1.prems"(3) have "int (length (buf @ data)) \<le> cap" by simp
      from "1.IH" [OF \<open>int (length buf) < target\<close> rd [symmetric] False "1.prems"(1) run this "1.prems"(4)]
      show ?thesis .
    qed
  qed
qed


lemma handoff_to_next_buffer:
  "read_buffer (handoff_to_next c ci tot idx e)
     = drop (nat (max 0 (ci_actual_chunk_samples ci - overlap_samples c))) (read_buffer c)"
  by (auto simp: handoff_to_next_def Let_def max_def)

lemma handoff_to_next_length:
  "int (length (read_buffer (handoff_to_next c ci tot idx e)))
     = max 0 (int (length (read_buffer c))
               - max 0 (ci_actual_chunk_samples ci - overlap_samples c))"
  unfolding handoff_to_next_buffer by (simp add: max_def)

lemma handoff_to_next_eof:
  "eof (handoff_to_next c ci tot idx e) \<longleftrightarrow>
     eof c \<or> (e \<and> int (length (read_buffer c))
                  - max 0 (ci_actual_chunk_samples ci - overlap_samples c) \<le> overlap_samples c)"
  by (auto simp: handoff_to_next_def Let_def max_def)

lemma process_one_chunk_config:
  assumes "process_one_chunk env s = (r, s')"
  shows "overlap_samples (st_cctx s') = overlap_samples (st_cctx s)
       \<and> min_chunk_samples (st_cctx s') = min_chunk_samples (st_cctx s)
       \<and> max_chunk_samples (st_cctx s') = max_chunk_samples (st_cctx s)
       \<and> buffer_size (st_cctx s') = buffer_size (st_cctx s)"
  using assms
proof (cases rule: process_one_chunk_cases)
  case Eof
  then show ?thesis by simp
next
  case (Drained buffer is_eof p')
  then show ?thesis by simp
next
  case (Chunk buffer is_eof p' vad_start vad_segs c1 oo avail fb)
  from Chunk(9) show ?thesis
  proof (cases rule: transcribe_chunk_cases)
    case (1 es t')
    from 1(7) Chunk(3) show ?thesis by (simp add: handoff_to_next_fields)
  qed
qed

lemma chunk_size_bounds:
  fixes c :: "'a common_ctx"
  assumes cfg: "0 < min_chunk_samples c" "min_chunk_samples c \<le> max_chunk_samples c"
      "max_chunk_samples c < 2 ^ 31"
    and avail: "0 < avail" "\<not> is_eof \<Longrightarrow> max_chunk_samples c \<le> avail"
    and nt: "\<not> (is_eof \<and> avail - fst (find_chunk_boundary c avail vad vo) < min_chunk_samples c)"
  shows "160 * (min_chunk_samples c div 160) \<le> fst (find_chunk_boundary c avail vad vo)
       \<and> fst (find_chunk_boundary c avail vad vo) \<le> max_chunk_samples c"
proof -
  define fb where "fb = fst (find_chunk_boundary c avail vad vo)"
  define se where "se = min (max_chunk_samples c) avail"
  define mn where "mn = min_chunk_samples c"
  have cfg0: "0 \<le> min_chunk_samples c" using cfg(1) by simp
  note rng = find_chunk_boundary_range [OF cfg0 cfg(3), where avail = avail and vad = vad and vo = vo,
      unfolded fb_def [symmetric] se_def [symmetric] mn_def [symmetric]]
  have low: "160 * (mn div 160) \<le> mn" by simp
  have se_mx: "se \<le> max_chunk_samples c" by (simp add: se_def)
  have "160 * (mn div 160) \<le> fb \<and> fb \<le> se"
  proof (cases "mn < se")
    case True
    then show ?thesis by (rule rng(2))
  next
    case False
    then have fb: "fb = se" by (intro rng(3)) simp
    have "se = max_chunk_samples c"
    proof (cases is_eof)
      case False
      with avail(2) show ?thesis by (simp add: se_def)
    next
      case True
      with nt have "mn \<le> avail - fb" by (simp add: fb_def mn_def)
      with fb cfg(1) have "se < avail" by (simp add: mn_def)
      then show ?thesis by (simp add: se_def min_def split: if_splits)
    qed
    with False cfg(2) fb low show ?thesis by (simp add: mn_def)
  qed
  with se_mx show ?thesis unfolding fb_def mn_def by linarith
qed


lemma process_one_chunk_size_inv:
  assumes cfg: "0 < mn" "mn \<le> mx" "mx < 2 ^ 31"
    and inv: "size_inv mn mx s" and step: "process_one_chunk env s = (r, s')"
  shows "size_inv mn mx s'"
  using step
proof (cases rule: process_one_chunk_cases)
  case Eof
  with inv show ?thesis by simp
next
  case (Drained buffer is_eof p')
  with inv show ?thesis by (simp add: size_inv_def)
next
  case (Chunk buffer is_eof p' vad_start vad_segs c1 oo avail fb)
  define c where "c = st_cctx s"
  define tot where "tot = total_samples_read c"
  define idx where "idx = next_chunk_idx c"
  define ci where "ci = make_chunk_info c1 fb avail oo tot is_eof"
  define len where "len = int (length buffer)"
  from inv have mn: "min_chunk_samples c = mn" and mx: "max_chunk_samples c = mx"
    and ov: "0 \<le> overlap_samples c"
    and old: "list_all (size_ok mn mx) (chunk_logs s)"
    and old_tail: "list_all (\<lambda>e. \<not> tail_rule mn e) (butlast (chunk_logs s))"
    and old_last: "chunk_logs s = [] \<or> \<not> tail_rule mn (last (chunk_logs s)) \<or> eof c"
    by (simp_all add: size_inv_def c_def)
  have c1: "min_chunk_samples c1 = mn" "max_chunk_samples c1 = mx"
    "overlap_samples c1 = overlap_samples c" "read_buffer c1 = buffer" "eof c1 = eof c"
    using Chunk(3) mn mx by (simp_all add: c_def)
  have oo: "0 \<le> oo" "oo \<le> overlap_samples c" using Chunk(4) ov by (simp_all add: c_def)
  have avail: "avail = len - oo" using Chunk(5) by (simp add: len_def)
  have full: "mx \<le> avail" if "\<not> is_eof"
  proof -
    from fill_read_buffer_post [OF Chunk(2)] that
    have "max_chunk_samples c + overlap_samples c \<le> len" by (simp add: c_def len_def)
    with oo mx avail show ?thesis by linarith
  qed
  have cs: "ci_chunk_samples ci = (if is_eof \<and> avail - fb < mn then avail else fb)"
    by (simp add: ci_def make_chunk_info_fields c1)
  have ci_oo: "ci_overlap_offset ci = oo" by (simp add: ci_def make_chunk_info_fields)
  have actual: "ci_actual_chunk_samples ci = ci_chunk_samples ci + oo"
    by (simp add: ci_def make_chunk_info_fields)
  from Chunk(9) have run: "transcribe_chunk env (s\<lparr>producer := p'\<rparr>) c1 ci fb idx tot is_eof = (r, s')"
    by (simp add: ci_def tot_def idx_def c_def)
  from run show ?thesis
  proof (cases rule: transcribe_chunk_cases)
    case (1 es t')
    define c' where "c' = handoff_to_next c1 ci tot idx is_eof"
    define entry where "entry = \<lparr> log_chunk_idx = idx, log_boundary = fb,
        log_info = ci, log_total_samples = tot,
        log_buffer_len = int (length (read_buffer c1)), log_eof = is_eof,
        log_kept_len = int (length (read_buffer c')), log_ret = r \<rparr>"
    have logs: "chunk_logs s' = chunk_logs s @ [entry]"
      using 1(3) by (simp add: entry_def c'_def)
    have tr: "tail_rule mn entry \<longleftrightarrow> is_eof \<and> avail - fb < mn"
      by (simp add: tail_rule_def entry_def ci_oo c1 avail len_def)
    have ok: "size_ok mn mx entry"
    proof (cases "is_eof \<and> avail - fb < mn")
      case True
      with tr cs show ?thesis by (simp add: size_ok_def entry_def ci_oo c1 avail len_def)
    next
      case False
      have cfg1: "0 < min_chunk_samples c1" "min_chunk_samples c1 \<le> max_chunk_samples c1"
        "max_chunk_samples c1 < 2 ^ 31" using cfg c1 by simp_all
      have av: "\<not> is_eof \<Longrightarrow> max_chunk_samples c1 \<le> avail" using full c1 by simp
      from False have nt: "\<not> (is_eof \<and> avail - fst (find_chunk_boundary c1 avail vad_segs vad_start)
                              < min_chunk_samples c1)"
        using Chunk(8) c1 by simp
      from chunk_size_bounds [OF cfg1 Chunk(6) av nt] Chunk(8) c1
      have bounds: "160 * (mn div 160) \<le> fb \<and> fb \<le> mx" by simp
      from False tr have ntr: "\<not> tail_rule mn entry" by simp
      from False cs have csfb: "ci_chunk_samples ci = fb" by auto
      have li: "log_info entry = ci" by (simp add: entry_def)
      show ?thesis unfolding size_ok_def li using ntr csfb bounds by simp
    qed
    have cfg': "min_chunk_samples (st_cctx s') = mn" "max_chunk_samples (st_cctx s') = mx"
      "0 \<le> overlap_samples (st_cctx s')"
      using process_one_chunk_config [OF step] mn mx ov by (simp_all add: c_def)
    have eof': "eof (st_cctx s')" if "tail_rule mn entry"
    proof -
      from that tr cs have e: "is_eof" and "ci_chunk_samples ci = avail" by simp_all
      with actual avail have "ci_actual_chunk_samples ci = len" by simp
      with e ov have "eof c'"
        unfolding c'_def handoff_to_next_eof c1 len_def by (simp add: max_def)
      with 1(7) show ?thesis by (simp add: c'_def)
    qed
    from old_last Chunk(1) have "chunk_logs s = [] \<or> \<not> tail_rule mn (last (chunk_logs s))"
      by (simp add: c_def)
    with old_tail have "list_all (\<lambda>e. \<not> tail_rule mn e) (chunk_logs s)"
      by (cases "chunk_logs s" rule: rev_cases) simp_all
    with old ok eof' cfg' show ?thesis
      unfolding size_inv_def logs by auto
  qed
qed

lemma stream_loop_size_inv:
  assumes cfg: "0 < mn" "mn \<le> mx" "mx < 2 ^ 31"
  shows "size_inv mn mx s \<Longrightarrow> size_inv mn mx (snd (stream_loop fuel env s))"
proof (induction fuel arbitrary: s)
  case 0
  then show ?case by simp
next
  case (Suc fuel)
  obtain r s' where step: "process_one_chunk env s = (r, s')"
    by (cases "process_one_chunk env s")
  from process_one_chunk_size_inv [OF cfg Suc.prems step] have "size_inv mn mx s'" .
  with Suc.IH [of s'] step show ?case by simp
qed

lemma list_all_butlast_nth:
  "list_all P (butlast xs) \<Longrightarrow> i < length xs \<Longrightarrow> \<not> P (xs ! i) \<Longrightarrow> Suc i = length xs"
proof (induction xs arbitrary: i rule: rev_induct)
  case Nil
  then show ?case by simp
next
  case (snoc x xs)
  show ?case
  proof (cases "i < length xs")
    case True
    with snoc.prems have "P (xs ! i)" by (simp add: list_all_length)
    with True snoc.prems(3) show ?thesis by (simp add: nth_append)
  next
    case False
    with snoc.prems(2) show ?thesis by simp
  qed
qed

text \<open>
  C3, as the code has it. In a run with \<open>0 < min_chunk_samples \<le> max_chunk_samples\<close> and a
  non-negative overlap, a logged chunk to which the EOF tail rule applies (the end was
  seen while filling and fewer than \<open>min_chunk_samples\<close> would be left beyond the
  boundary) takes \<open>chunk_samples = buffer_len - overlap_offset\<close> and is the last chunk of
  the log. Every other chunk has \<open>chunk_samples\<close> between \<open>min_chunk_samples\<close> rounded down
  to a whole centisecond (160 samples) and \<open>max_chunk_samples\<close>; so it is at least
  \<open>min_chunk_samples\<close> when that is a multiple of 160.
\<close>

theorem chunk_sizing:
  assumes "0 < min_chunk_samples (st_cctx (init_stream_state env sparams p))"
    and "min_chunk_samples (st_cctx (init_stream_state env sparams p))
           \<le> max_chunk_samples (st_cctx (init_stream_state env sparams p))"
    and "max_chunk_samples (st_cctx (init_stream_state env sparams p)) < 2 ^ 31"
    and "0 \<le> overlap_samples (st_cctx (init_stream_state env sparams p))"
  shows "let mn = min_chunk_samples (st_cctx (init_stream_state env sparams p));
             mx = max_chunk_samples (st_cctx (init_stream_state env sparams p));
             logs = chunk_logs (snd (stream_loop fuel env (init_stream_state env sparams p)))
         in \<forall>i < length logs.
              (if log_eof (logs ! i)
                  \<and> (log_buffer_len (logs ! i) - ci_overlap_offset (log_info (logs ! i)))
                       - log_boundary (logs ! i) < mn
               then ci_chunk_samples (log_info (logs ! i))
                      = log_buffer_len (logs ! i) - ci_overlap_offset (log_info (logs ! i))
                  \<and> Suc i = length logs
               else 160 * (mn div 160) \<le> ci_chunk_samples (log_info (logs ! i))
                  \<and> ci_chunk_samples (log_info (logs ! i)) \<le> mx
                  \<and> (160 dvd mn \<longrightarrow> mn \<le> ci_chunk_samples (log_info (logs ! i))))"
proof -
  define s0 where "s0 = init_stream_state env sparams p"
  define mn where "mn = min_chunk_samples (st_cctx s0)"
  define mx where "mx = max_chunk_samples (st_cctx s0)"
  define logs where "logs = chunk_logs (snd (stream_loop fuel env s0))"
  have cfg: "0 < mn" "mn \<le> mx" "mx < 2 ^ 31"
    using assms(1-3) by (simp_all add: mn_def mx_def s0_def)
  have "size_inv mn mx s0"
    using assms(4) by (simp add: size_inv_def mn_def mx_def s0_def init_stream_state_def Let_def)
  from stream_loop_size_inv [OF cfg this, of fuel env]
  have ok: "list_all (size_ok mn mx) logs"
    and tails: "list_all (\<lambda>e. \<not> tail_rule mn e) (butlast logs)"
    by (simp_all add: size_inv_def logs_def)
  have "if tail_rule mn (logs ! i)
        then ci_chunk_samples (log_info (logs ! i))
               = log_buffer_len (logs ! i) - ci_overlap_offset (log_info (logs ! i))
           \<and> Suc i = length logs
        else 160 * (mn div 160) \<le> ci_chunk_samples (log_info (logs ! i))
           \<and> ci_chunk_samples (log_info (logs ! i)) \<le> mx
           \<and> (160 dvd mn \<longrightarrow> mn \<le> ci_chunk_samples (log_info (logs ! i)))"
    if i: "i < length logs" for i
  proof -
    from ok i have so: "size_ok mn mx (logs ! i)" by (simp add: list_all_length)
    show ?thesis
    proof (cases "tail_rule mn (logs ! i)")
      case True
      with list_all_butlast_nth [OF tails i] have "Suc i = length logs" by simp
      with so True show ?thesis by (simp add: size_ok_def)
    next
      case False
      with so show ?thesis by (auto simp: size_ok_def)
    qed
  qed
  then show ?thesis
    unfolding Let_def s0_def [symmetric] mn_def [symmetric] mx_def [symmetric]
      logs_def [symmetric] tail_rule_def by blast
qed


theorem chunk_sizing_witness:
  "(let logs = chunk_logs (snd (stream_loop 3 example_env
                 (init_stream_state example_env example_params (replicate 1200 ()))))
    in length logs = 2
     \<and> \<not> log_eof (logs ! 0)
     \<and> 160 * (480 div 160) \<le> ci_chunk_samples (log_info (logs ! 0))
     \<and> ci_chunk_samples (log_info (logs ! 0)) \<le> 960
     \<and> log_eof (logs ! 1)
     \<and> (log_buffer_len (logs ! 1) - ci_overlap_offset (log_info (logs ! 1)))
          - log_boundary (logs ! 1) < 480
     \<and> ci_chunk_samples (log_info (logs ! 1))
          = log_buffer_len (logs ! 1) - ci_overlap_offset (log_info (logs ! 1)))"
  using chunk_sizing [of example_env example_params "replicate 1200 ()" 3]
  unfolding example_run
  by (simp add: init_stream_state_def init_common_ctx_def example_params_def
      WHISPER_SAMPLE_RATE_def cdiv_numeral)



text \<open>
  C3 as stated fails where the minimum is not a whole number of centiseconds: in the run
  with a VAD context, the first chunk is cut at 160000 samples, below the minimum of
  160080, although the end of the audio is not in sight and a second chunk follows.
\<close>

lemma vad_example_run:
  "map (\<lambda>e. (log_chunk_idx e, log_boundary e, ci_chunk_samples (log_info e), log_eof e))
     (chunk_logs vad_example_state)
   = [(0, 160000, 160000, False), (1, 160000, 160000, False)]"
  by (simp add: vad_example_state_def vad_example_env_def vad_example_params_def
      numeral_2_eq_2 run_defs detect_vad_segments_def find_silence_in_segments_def
      check_gap_def int32_cast_def signed_take_bit_eq_take_bit_minus bit_simps
      replicate_add [symmetric])

lemma stream_loop_config:
  "min_chunk_samples (st_cctx (snd (stream_loop fuel env s))) = min_chunk_samples (st_cctx s)
 \<and> max_chunk_samples (st_cctx (snd (stream_loop fuel env s))) = max_chunk_samples (st_cctx s)
 \<and> overlap_samples (st_cctx (snd (stream_loop fuel env s))) = overlap_samples (st_cctx s)
 \<and> buffer_size (st_cctx (snd (stream_loop fuel env s))) = buffer_size (st_cctx s)"
proof (induction fuel arbitrary: s)
  case 0
  then show ?case by simp
next
  case (Suc fuel)
  obtain r s' where step: "process_one_chunk env s = (r, s')"
    by (cases "process_one_chunk env s")
  from process_one_chunk_config [OF step] Suc.IH [of s'] step show ?case by simp
qed

lemma vad_example_min_chunk: "min_chunk_samples (st_cctx vad_example_state) = 160080"
  unfolding vad_example_state_def
  by (simp add: stream_loop_config init_stream_state_def init_common_ctx_def
      vad_example_params_def WHISPER_SAMPLE_RATE_def cdiv_numeral)

theorem chunk_sizing_counterexample:
  "length (chunk_logs vad_example_state) = 2
 \<and> \<not> log_eof (chunk_logs vad_example_state ! 0)
 \<and> \<not> (min_chunk_samples (st_cctx vad_example_state)
        \<le> ci_chunk_samples (log_info (chunk_logs vad_example_state ! 0)))"
proof -
  let ?f = "\<lambda>e. (log_chunk_idx e, log_boundary e, ci_chunk_samples (log_info e), log_eof e)"
  have "length (map ?f (chunk_logs vad_example_state)) = 2"
    unfolding vad_example_run by simp
  then have len: "length (chunk_logs vad_example_state) = 2" by simp
  then have "?f (chunk_logs vad_example_state ! 0) = map ?f (chunk_logs vad_example_state) ! 0"
    by simp
  with vad_example_run have "?f (chunk_logs vad_example_state ! 0) = (0, 160000, 160000, False)"
    by simp
  with len vad_example_min_chunk show ?thesis by simp
qed



section \<open>Read buffer\<close>


lemma process_one_chunk_capacity_inv:
  assumes honest: "\<forall>q n. int (length (fst (read_cb env q n))) \<le> max 0 n"
    and inv: "capacity_inv s" and step: "process_one_chunk env s = (r, s')"
  shows "capacity_inv s'"
  using step
proof (cases rule: process_one_chunk_cases)
  case Eof
  with inv show ?thesis by simp
next
  case (Drained buffer is_eof p')
  from inv have cap: "buffer_size (st_cctx s)
                        = max_chunk_samples (st_cctx s) + overlap_samples (st_cctx s)"
    and len: "int (length (read_buffer (st_cctx s))) \<le> buffer_size (st_cctx s)"
    unfolding capacity_inv_def by blast+
  from fill_read_buffer_capacity [OF honest Drained(2) len] cap
  have filled: "int (length buffer) \<le> buffer_size (st_cctx s)" by simp
  from inv have old: "list_all (entry_capacity_ok (buffer_size (st_cctx s))
                           (overlap_samples (st_cctx s))) (chunk_logs s)"
    unfolding capacity_inv_def by blast
  have fields: "buffer_size (st_cctx s') = buffer_size (st_cctx s)"
    "max_chunk_samples (st_cctx s') = max_chunk_samples (st_cctx s)"
    "overlap_samples (st_cctx s') = overlap_samples (st_cctx s)"
    "read_buffer (st_cctx s') = buffer" "chunk_logs s' = chunk_logs s"
    using Drained(5) by simp_all
  show ?thesis unfolding capacity_inv_def fields using cap filled old by blast
next
  case (Chunk buffer is_eof p' vad_start vad_segs c1 oo avail fb)
  define c where "c = st_cctx s"
  define tot where "tot = total_samples_read c"
  define idx where "idx = next_chunk_idx c"
  define ci where "ci = make_chunk_info c1 fb avail oo tot is_eof"
  from inv have cap: "buffer_size c = max_chunk_samples c + overlap_samples c"
    and len: "int (length (read_buffer c)) \<le> buffer_size c"
    and old: "list_all (entry_capacity_ok (buffer_size c) (overlap_samples c)) (chunk_logs s)"
    unfolding capacity_inv_def c_def by blast+
  have filled: "int (length buffer) \<le> buffer_size c"
    using fill_read_buffer_capacity [OF honest Chunk(2) len [unfolded c_def]] cap
    by (simp add: c_def)
  have c1: "read_buffer c1 = buffer" "overlap_samples c1 = overlap_samples c"
    using Chunk(3) by (simp_all add: c_def)
  from Chunk(9) have run: "transcribe_chunk env (s\<lparr>producer := p'\<rparr>) c1 ci fb idx tot is_eof = (r, s')"
    by (simp add: ci_def tot_def idx_def c_def)
  from run show ?thesis
  proof (cases rule: transcribe_chunk_cases)
    case (1 es t')
    define c' where "c' = handoff_to_next c1 ci tot idx is_eof"
    define entry where "entry = \<lparr> log_chunk_idx = idx, log_boundary = fb,
        log_info = ci, log_total_samples = tot,
        log_buffer_len = int (length (read_buffer c1)), log_eof = is_eof,
        log_kept_len = int (length (read_buffer c')), log_ret = r \<rparr>"
    have logs: "chunk_logs s' = chunk_logs s @ [entry]"
      using 1(3) by (simp add: entry_def c'_def)
    have kept: "int (length (read_buffer c'))
                  = max 0 (int (length buffer)
                            - max 0 (ci_actual_chunk_samples ci - overlap_samples c))"
      unfolding c'_def handoff_to_next_length c1 ..
    have buf': "read_buffer (st_cctx s') = read_buffer c'"
      using 1(7) by (simp add: c'_def)
    have cfg': "buffer_size (st_cctx s') = buffer_size c"
      "max_chunk_samples (st_cctx s') = max_chunk_samples c"
      "overlap_samples (st_cctx s') = overlap_samples c"
      using process_one_chunk_config [OF step] by (simp_all add: c_def)
    have new: "entry_capacity_ok (buffer_size c) (overlap_samples c) entry"
      using filled kept by (simp add: entry_capacity_ok_def entry_def handoff_ok_def c1)
    have "int (length (read_buffer c')) \<le> buffer_size c"
      using kept filled len by (simp add: max_def split: if_splits)
    then have len': "int (length (read_buffer c')) \<le> buffer_size c" .
    from old new have all: "list_all (entry_capacity_ok (buffer_size c) (overlap_samples c))
                              (chunk_logs s @ [entry])"
      by simp
    show ?thesis
      unfolding capacity_inv_def logs cfg' buf' using cap len' all by blast
  qed
qed

lemma stream_loop_capacity_inv:
  assumes honest: "\<forall>q n. int (length (fst (read_cb env q n))) \<le> max 0 n"
  shows "capacity_inv s \<Longrightarrow> capacity_inv (snd (stream_loop fuel env s))"
proof (induction fuel arbitrary: s)
  case 0
  then show ?case by simp
next
  case (Suc fuel)
  obtain r s' where step: "process_one_chunk env s = (r, s')"
    by (cases "process_one_chunk env s")
  from process_one_chunk_capacity_inv [OF honest Suc.prems step] have "capacity_inv s'" .
  with Suc.IH [of s'] step show ?case by simp
qed

lemma init_capacity_inv:
  "0 \<le> buffer_size (st_cctx (init_stream_state env sparams p)) \<Longrightarrow>
     capacity_inv (init_stream_state env sparams p)"
  by (simp add: capacity_inv_def init_stream_state_def init_common_ctx_def Let_def)

text \<open>
  C4, as the code has it. With a read callback that never returns more samples than it
  was asked for, the read buffer never holds more than its capacity
  \<open>max_chunk_samples + overlap_samples\<close>: neither between chunks nor after filling. A
  hand-off drops the first \<open>keep_start = max(0, actual_chunk_samples - overlap_samples)\<close>
  samples and keeps all the others, so the buffer holds its length before minus
  \<open>keep_start\<close> (or nothing): the last \<open>overlap_samples\<close> samples of the chunk and every
  sample beyond it. That is \<open>min(overlap_samples, content before)\<close> when the chunk took
  the whole buffer.
\<close>

theorem read_buffer_capacity_and_handoff:
  assumes "\<forall>q n. int (length (fst (read_cb env q n))) \<le> max 0 n"
    and "0 \<le> buffer_size (st_cctx (init_stream_state env sparams p))"
  shows "let s = snd (stream_loop fuel env (init_stream_state env sparams p));
             cap = max_chunk_samples (st_cctx s) + overlap_samples (st_cctx s);
             ov = overlap_samples (st_cctx s)
         in buffer_size (st_cctx s) = cap
          \<and> int (length (read_buffer (st_cctx s))) \<le> cap
          \<and> (\<forall>e \<in> set (chunk_logs s).
                log_buffer_len e \<le> cap
              \<and> log_kept_len e
                  = max 0 (log_buffer_len e - max 0 (ci_actual_chunk_samples (log_info e) - ov))
              \<and> (0 \<le> ov \<and> ci_actual_chunk_samples (log_info e) = log_buffer_len e
                   \<longrightarrow> log_kept_len e = min ov (log_buffer_len e)))
          \<and> (\<forall>c ci tot idx is_eof.
                read_buffer (handoff_to_next (c :: 'a common_ctx) ci tot idx is_eof)
                  = drop (nat (max 0 (ci_actual_chunk_samples ci - overlap_samples c)))
                      (read_buffer c))"
proof -
  define s where "s = snd (stream_loop fuel env (init_stream_state env sparams p))"
  have "capacity_inv s"
    unfolding s_def
    by (rule stream_loop_capacity_inv [OF assms(1) init_capacity_inv [OF assms(2)]])
  then have cap: "buffer_size (st_cctx s) = max_chunk_samples (st_cctx s) + overlap_samples (st_cctx s)"
    and len: "int (length (read_buffer (st_cctx s))) \<le> buffer_size (st_cctx s)"
    and logs: "\<forall>e \<in> set (chunk_logs s).
                 entry_capacity_ok (buffer_size (st_cctx s)) (overlap_samples (st_cctx s)) e"
    unfolding capacity_inv_def list_all_iff by blast+
  have whole: "log_kept_len e = min ov (log_buffer_len e)"
    if "handoff_ok ov e" "0 \<le> log_buffer_len e" "0 \<le> ov"
      "ci_actual_chunk_samples (log_info e) = log_buffer_len e"
    for ov e
    using that by (simp add: handoff_ok_def max_def min_def split: if_splits)
  have entries: "log_buffer_len e
                   \<le> max_chunk_samples (st_cctx s) + overlap_samples (st_cctx s)
              \<and> log_kept_len e
                  = max 0 (log_buffer_len e
                      - max 0 (ci_actual_chunk_samples (log_info e) - overlap_samples (st_cctx s)))
              \<and> (0 \<le> overlap_samples (st_cctx s)
                   \<and> ci_actual_chunk_samples (log_info e) = log_buffer_len e
                   \<longrightarrow> log_kept_len e = min (overlap_samples (st_cctx s)) (log_buffer_len e))"
    if "e \<in> set (chunk_logs s)" for e
  proof -
    from logs that
    have "entry_capacity_ok (buffer_size (st_cctx s)) (overlap_samples (st_cctx s)) e" by blast
    then have b: "log_buffer_len e \<le> buffer_size (st_cctx s)"
      and b0: "0 \<le> log_buffer_len e"
      and h: "handoff_ok (overlap_samples (st_cctx s)) e"
      unfolding entry_capacity_ok_def by blast+
    from b cap have "log_buffer_len e
                   \<le> max_chunk_samples (st_cctx s) + overlap_samples (st_cctx s)" by simp
    moreover from h have "log_kept_len e
                  = max 0 (log_buffer_len e
                      - max 0 (ci_actual_chunk_samples (log_info e) - overlap_samples (st_cctx s)))"
      by (simp add: handoff_ok_def)
    ultimately show ?thesis using whole [OF h b0] by blast
  qed
  from len cap have len': "int (length (read_buffer (st_cctx s)))
                     \<le> max_chunk_samples (st_cctx s) + overlap_samples (st_cctx s)" by simp
  show ?thesis
    unfolding Let_def s_def [symmetric]
    using cap len' entries handoff_to_next_buffer by blast
qed


lemma file_read_cb_honest: "int (length (fst (file_read_cb q n))) \<le> max 0 n"
  by (simp add: file_read_cb_def Let_def)

theorem read_buffer_capacity_and_handoff_witness:
  "(let s = snd (stream_loop 3 example_env
                  (init_stream_state example_env example_params (replicate 1200 ())))
    in max_chunk_samples (st_cctx s) + overlap_samples (st_cctx s) = 1120
     \<and> length (read_buffer (st_cctx s)) = 160
     \<and> log_buffer_len (chunk_logs s ! 0) = 1120
     \<and> log_kept_len (chunk_logs s ! 0) = max 0 (1120 - max 0 (480 - 160))
     \<and> ci_actual_chunk_samples (log_info (chunk_logs s ! 1)) = log_buffer_len (chunk_logs s ! 1)
     \<and> log_kept_len (chunk_logs s ! 1) = min 160 880)"
proof -
  have honest: "\<forall>q n. int (length (fst (read_cb example_env q n))) \<le> max 0 n"
    by (simp add: example_env_def file_read_cb_honest)
  have cap: "0 \<le> buffer_size (st_cctx (init_stream_state example_env example_params
                                           (replicate 1200 ())))"
    by (simp add: init_stream_state_def init_common_ctx_def example_params_def
        WHISPER_SAMPLE_RATE_def cdiv_numeral)
  show ?thesis
    using read_buffer_capacity_and_handoff [OF honest cap, of 3]
    unfolding example_run by simp
qed

text \<open>
  C4 as stated fails at every chunk that does not take the whole buffer: after the first
  hand-off of the example run the buffer holds 800 samples, not \<open>min(160, 1120)\<close>.
\<close>

theorem handoff_retention_counterexample:
  "(let s = snd (stream_loop 3 example_env
                  (init_stream_state example_env example_params (replicate 1200 ())))
    in overlap_samples (st_cctx s) = 160
     \<and> log_buffer_len (chunk_logs s ! 0) = 1120
     \<and> log_kept_len (chunk_logs s ! 0) = 800
     \<and> log_kept_len (chunk_logs s ! 0)
         \<noteq> min (overlap_samples (st_cctx s)) (log_buffer_len (chunk_logs s ! 0)))"
  unfolding example_run by simp


section \<open>The result of a stream run\<close>


lemma process_one_chunk_abort_inv:
  assumes inv: "abort_inv env s" and step: "process_one_chunk env s = (r, s')"
  shows "abort_inv env s'"
  using step
proof (cases rule: process_one_chunk_cases)
  case Eof
  with inv show ?thesis by simp
next
  case (Drained buffer is_eof p')
  with inv show ?thesis by (simp add: abort_inv_def)
next
  case (Chunk buffer is_eof p' vad_start vad_segs c1 oo avail fb)
  define c where "c = st_cctx s"
  define tot where "tot = total_samples_read c"
  define idx where "idx = next_chunk_idx c"
  define ci where "ci = make_chunk_info c1 fb avail oo tot is_eof"
  from inv Chunk(1) have na: "\<not> abort c" and none: "\<not> list_ex (chunk_failed env) (chunk_logs s)"
    by (auto simp: abort_inv_def c_def)
  from Chunk(9) have run: "transcribe_chunk env (s\<lparr>producer := p'\<rparr>) c1 ci fb idx tot is_eof = (r, s')"
    by (simp add: ci_def tot_def idx_def c_def)
  from run show ?thesis
  proof (cases rule: transcribe_chunk_cases)
    case (1 es t')
    define c' where "c' = handoff_to_next c1 ci tot idx is_eof"
    define entry where "entry = \<lparr> log_chunk_idx = idx, log_boundary = fb,
        log_info = ci, log_total_samples = tot,
        log_buffer_len = int (length (read_buffer c1)), log_eof = is_eof,
        log_kept_len = int (length (read_buffer c')), log_ret = r \<rparr>"
    have logs: "chunk_logs s' = chunk_logs s @ [entry]"
      using 1(3) by (simp add: entry_def c'_def)
    have failed: "chunk_failed env entry \<longleftrightarrow> r \<noteq> 0 \<or> abort_requested env idx"
      by (simp add: chunk_failed_def entry_def)
    have na': "\<not> abort c'" using na Chunk(3) by (simp add: c'_def handoff_to_next_fields c_def)
    have c'': "st_cctx s' = (if r \<noteq> 0 \<or> abort_requested env idx
                             then c'\<lparr>eof := True, abort := True\<rparr> else c')"
      using 1(6,7) by (simp add: c'_def)
    show ?thesis
      unfolding abort_inv_def logs c'' using none failed na' by simp
  qed
qed

lemma stream_loop_abort_inv:
  "abort_inv env s \<Longrightarrow> abort_inv env (snd (stream_loop fuel env s))"
proof (induction fuel arbitrary: s)
  case 0
  then show ?case by simp
next
  case (Suc fuel)
  obtain r s' where step: "process_one_chunk env s = (r, s')"
    by (cases "process_one_chunk env s")
  from process_one_chunk_abort_inv [OF Suc.prems step] have "abort_inv env s'" .
  with Suc.IH [of s'] step show ?case by simp
qed

lemma init_abort_inv: "abort_inv env (init_stream_state env sparams p)"
  by (simp add: abort_inv_def init_stream_state_def init_common_ctx_def Let_def)

lemma process_one_chunk_ends_at_eof:
  assumes inv: "abort_inv env s" and step: "process_one_chunk env s = (r, s')" and r: "r \<noteq> 0"
  shows "eof (st_cctx s')"
  using step
proof (cases rule: process_one_chunk_cases)
  case Eof
  then show ?thesis by simp
next
  case (Drained buffer is_eof p')
  then show ?thesis by simp
next
  case (Chunk buffer is_eof p' vad_start vad_segs c1 oo avail fb)
  from Chunk(9) show ?thesis
  proof (cases rule: transcribe_chunk_cases)
    case (1 es t')
    with r show ?thesis by simp
  qed
qed

lemma stream_loop_ends_at_eof:
  "abort_inv env s \<Longrightarrow> stream_loop fuel env s = (True, s') \<Longrightarrow> eof (st_cctx s')"
proof (induction fuel arbitrary: s)
  case 0
  then show ?case by simp
next
  case (Suc fuel)
  obtain r s1 where step: "process_one_chunk env s = (r, s1)"
    by (cases "process_one_chunk env s")
  show ?case
  proof (cases "r = 0")
    case True
    with step Suc.prems(2) have "stream_loop fuel env s1 = (True, s')" by simp
    with Suc.IH [OF process_one_chunk_abort_inv [OF Suc.prems(1) step]] show ?thesis .
  next
    case False
    with step Suc.prems(2) have "s' = s1" by simp
    with process_one_chunk_ends_at_eof [OF Suc.prems(1) step False] show ?thesis by simp
  qed
qed


lemma fill_read_buffer_supply:
  "\<forall>q n. f (snd (rd q n)) + length (fst (rd q n)) \<le> f q \<Longrightarrow>
   fill_read_buffer rd cap target buf p = (buf', e, p') \<Longrightarrow>
     length buf' + f p' \<le> length buf + f p"
proof (induction rd cap target buf p rule: fill_read_buffer.induct)
  case (1 rd cap target buf p)
  show ?case
  proof (cases "int (length buf) < target")
    case False
    with "1.prems" show ?thesis by (simp add: fill_read_buffer.simps [of rd cap target buf p])
  next
    case True
    obtain data q where rd: "rd p (cap - int (length buf)) = (data, q)"
      by (cases "rd p (cap - int (length buf))")
    from "1.prems"(1)
    have "f (snd (rd p (cap - int (length buf)))) + length (fst (rd p (cap - int (length buf)))) \<le> f p"
      by blast
    with rd have stock: "f q + length data \<le> f p" by simp
    show ?thesis
    proof (cases "data = []")
      case True
      with \<open>int (length buf) < target\<close> rd "1.prems"(2) stock show ?thesis
        by (simp add: fill_read_buffer.simps [of rd cap target buf p])
    next
      case False
      with True rd "1.prems"(2)
      have run: "fill_read_buffer rd cap target (buf @ data) q = (buf', e, p')"
        by (simp add: fill_read_buffer.simps [of rd cap target buf p])
      from "1.IH" [OF \<open>int (length buf) < target\<close> rd [symmetric] False "1.prems"(1) run] stock
      show ?thesis by simp
    qed
  qed
qed

lemma find_chunk_boundary_positive:
  fixes c :: "'a common_ctx"
  assumes "0 < min_chunk_samples c" "0 < max_chunk_samples c" "0 < avail"
  shows "0 < fst (find_chunk_boundary c avail vad vo)"
  using assms by (simp add: find_chunk_boundary_def Let_def MIN_int_def)

lemma process_one_chunk_progress:
  assumes fin: "\<forall>q n. f (snd (read_cb env q n)) + length (fst (read_cb env q n)) \<le> f q"
    and cfg: "0 < min_chunk_samples (st_cctx s)" "0 < max_chunk_samples (st_cctx s)"
      "0 \<le> overlap_samples (st_cctx s)"
    and idx0: "0 \<le> next_chunk_idx (st_cctx s)"
    and step: "process_one_chunk env s = (0, s')"
  shows "run_measure f s' < run_measure f s \<and> 0 \<le> next_chunk_idx (st_cctx s')"
  using step
proof (cases rule: process_one_chunk_cases)
  case Eof
  then show ?thesis by simp
next
  case (Drained buffer is_eof p')
  then show ?thesis by simp
next
  case (Chunk buffer is_eof p' vad_start vad_segs c1 oo avail fb)
  define c where "c = st_cctx s"
  define tot where "tot = total_samples_read c"
  define idx where "idx = next_chunk_idx c"
  define ci where "ci = make_chunk_info c1 fb avail oo tot is_eof"
  have c1: "read_buffer c1 = buffer" "overlap_samples c1 = overlap_samples c"
    "min_chunk_samples c1 = min_chunk_samples c" "max_chunk_samples c1 = max_chunk_samples c"
    using Chunk(3) by (simp_all add: c_def)
  have stock: "length buffer + f p' \<le> length (read_buffer c) + f (producer s)"
    using fill_read_buffer_supply [OF fin Chunk(2)] by (simp add: c_def)
  have oo: "oo = (if idx > 0 then overlap_samples c else 0)" using Chunk(4) by (simp add: c_def idx_def)
  have len1: "0 < length buffer" using Chunk(5,6) oo cfg(3) by (auto simp: c_def split: if_splits)
  have "0 < fb"
    unfolding Chunk(8) using cfg(1,2) Chunk(6)
    by (intro find_chunk_boundary_positive) (simp_all add: c1 c_def)
  then have cs: "0 < ci_chunk_samples ci"
    using Chunk(6) by (simp add: ci_def make_chunk_info_fields)
  have actual: "ci_actual_chunk_samples ci = ci_chunk_samples ci + oo"
    by (simp add: ci_def make_chunk_info_fields)
  from Chunk(9) have run: "transcribe_chunk env (s\<lparr>producer := p'\<rparr>) c1 ci fb idx tot is_eof = (0, s')"
    by (simp add: ci_def tot_def idx_def c_def)
  from run show ?thesis
  proof (cases rule: transcribe_chunk_cases)
    case (1 es t')
    define c' where "c' = handoff_to_next c1 ci tot idx is_eof"
    have buf': "read_buffer (st_cctx s') = read_buffer c'"
      and idx': "next_chunk_idx (st_cctx s') = idx + 1"
      using 1(7) by (simp_all add: c'_def handoff_to_next_fields)
    have prod': "producer s' = p'" using 1(4) by simp
    have kept: "int (length (read_buffer c'))
                  = max 0 (int (length buffer)
                            - max 0 (ci_actual_chunk_samples ci - overlap_samples c))"
      unfolding c'_def handoff_to_next_length c1 ..
    have le: "length (read_buffer c') \<le> length buffer"
      using kept by (simp add: max_def split: if_splits)
    have lt: "length (read_buffer c') < length buffer" if "idx > 0"
    proof -
      from that oo actual cs have "1 \<le> ci_actual_chunk_samples ci - overlap_samples c" by simp
      with kept len1 show ?thesis by (simp add: max_def split: if_splits)
    qed
    show ?thesis
    proof (cases "idx > 0")
      case True
      with lt stock idx' show ?thesis
        unfolding run_measure_def buf' prod' c_def [symmetric] idx_def [symmetric] by simp
    next
      case False
      with idx0 have "idx = 0" by (simp add: idx_def c_def)
      with le stock idx' show ?thesis
        unfolding run_measure_def buf' prod' c_def [symmetric] idx_def [symmetric] by simp
    qed
  qed
qed

lemma stream_loop_terminates:
  assumes fin: "\<forall>q n. f (snd (read_cb env q n)) + length (fst (read_cb env q n)) \<le> f q"
  shows "0 < min_chunk_samples (st_cctx s) \<Longrightarrow> 0 < max_chunk_samples (st_cctx s) \<Longrightarrow>
         0 \<le> overlap_samples (st_cctx s) \<Longrightarrow> 0 \<le> next_chunk_idx (st_cctx s) \<Longrightarrow>
         \<exists>fuel. fst (stream_loop fuel env s)"
proof (induction "run_measure f s" arbitrary: s rule: less_induct)
  case less
  obtain r s' where step: "process_one_chunk env s = (r, s')"
    by (cases "process_one_chunk env s")
  show ?case
  proof (cases "r = 0")
    case False
    with step have "fst (stream_loop (Suc 0) env s)" by simp
    then show ?thesis ..
  next
    case True
    with step have step0: "process_one_chunk env s = (0, s')" by simp
    from process_one_chunk_progress [OF fin less.prems step0]
    have m: "run_measure f s' < run_measure f s" and i: "0 \<le> next_chunk_idx (st_cctx s')"
      by simp_all
    from process_one_chunk_config [OF step] less.prems(1-3)
    have cfg': "0 < min_chunk_samples (st_cctx s')" "0 < max_chunk_samples (st_cctx s')"
      "0 \<le> overlap_samples (st_cctx s')" by simp_all
    from less.hyps [OF m cfg' i] obtain fuel where "fst (stream_loop fuel env s')" ..
    with step0 have "fst (stream_loop (Suc fuel) env s)" by simp
    then show ?thesis ..
  qed
qed


lemma init_stream_state_config:
  assumes "0 < min_chunk_ms sparams" "0 \<le> overlap_ms sparams" "0 \<le> chunk_extend_ms sparams"
  shows "0 < min_chunk_samples (st_cctx (init_stream_state env sparams p))"
    and "0 < max_chunk_samples (st_cctx (init_stream_state env sparams p))"
    and "0 \<le> overlap_samples (st_cctx (init_stream_state env sparams p))"
    and "next_chunk_idx (st_cctx (init_stream_state env sparams p)) = 0"
proof -
  have mn: "cdiv (WHISPER_SAMPLE_RATE * min_chunk_ms sparams) 1000 = 16 * min_chunk_ms sparams"
    using assms(1) by (simp add: cdiv_nonneg WHISPER_SAMPLE_RATE_def)
  have ext: "cdiv (WHISPER_SAMPLE_RATE * chunk_extend_ms sparams) 1000 = 16 * chunk_extend_ms sparams"
    using assms(3) by (simp add: cdiv_nonneg WHISPER_SAMPLE_RATE_def)
  have ov: "cdiv (WHISPER_SAMPLE_RATE * overlap_ms sparams) 1000 = 16 * overlap_ms sparams"
    using assms(2) by (simp add: cdiv_nonneg WHISPER_SAMPLE_RATE_def)
  show "0 < min_chunk_samples (st_cctx (init_stream_state env sparams p))"
    using assms(1) by (simp add: init_stream_state_def init_common_ctx_def Let_def mn)
  show "0 < max_chunk_samples (st_cctx (init_stream_state env sparams p))"
    using assms(1,3) by (simp add: init_stream_state_def init_common_ctx_def Let_def mn ext)
  show "0 \<le> overlap_samples (st_cctx (init_stream_state env sparams p))"
    using assms(2) by (simp add: init_stream_state_def init_common_ctx_def Let_def ov)
  show "next_chunk_idx (st_cctx (init_stream_state env sparams p)) = 0"
    by (simp add: init_stream_state_def init_common_ctx_def Let_def)
qed

text \<open>
  C9. With its assertions met, \<^verbatim>\<open>whisper_stream_full\<close> returns -1 when one of the
  allocations fails. Otherwise, once the loop has ended, it returns -1 if for some chunk
  of the run \<^verbatim>\<open>whisper_full\<close> returned a nonzero value or an installed abort callback
  \<open>abort_cb env\<close> reported true after it, and 0 if neither happened for any chunk; the
  loop ends with the stream at EOF, and the abort flag is set exactly in the first case.
  When the chunk extension is not negative and the producer can deliver only finitely
  many samples, the loop does end.
\<close>

theorem whisper_stream_full_result:
  assumes "0 < min_chunk_ms sparams" and "0 \<le> overlap_ms sparams"
    and "overlap_ms sparams < min_chunk_ms sparams"
  shows "whisper_stream_full env sparams allocs p fuel =
           (if \<not> (alloc_read_buffer allocs \<and> alloc_worker_buffer allocs \<and> alloc_tokens allocs)
            then Inr (-1)
            else case stream_loop fuel env (init_stream_state env sparams p) of
                   (False, s) \<Rightarrow> Inl StillRunning
                 | (True, s) \<Rightarrow>
                     Inr (if list_ex (\<lambda>e. log_ret e \<noteq> 0
                                  \<or> (\<exists>cb. abort_cb env = Some cb \<and> cb (log_chunk_idx e)))
                               (chunk_logs s)
                          then -1 else 0))
       \<and> (\<forall>s. stream_loop fuel env (init_stream_state env sparams p) = (True, s) \<longrightarrow>
              eof (st_cctx s)
            \<and> (abort (st_cctx s) \<longleftrightarrow>
                 list_ex (\<lambda>e. log_ret e \<noteq> 0
                                  \<or> (\<exists>cb. abort_cb env = Some cb \<and> cb (log_chunk_idx e)))
                   (chunk_logs s)))
       \<and> (0 \<le> chunk_extend_ms sparams
            \<and> (\<exists>f. \<forall>q n. f (snd (read_cb env q n)) + length (fst (read_cb env q n)) \<le> f q)
          \<longrightarrow> (\<exists>k. fst (stream_loop k env (init_stream_state env sparams p))))"
proof -
  define s0 where "s0 = init_stream_state env sparams p"
  define failed where
    "failed = (\<lambda>e :: chunk_log. log_ret e \<noteq> 0
                 \<or> (\<exists>cb. abort_cb env = Some cb \<and> cb (log_chunk_idx e)))"
  have failed_eq: "chunk_failed env = failed"
    by (rule ext) (simp add: chunk_failed_def failed_def abort_requested_def split: option.split)
  have inv0: "abort_inv env s0" unfolding s0_def by (rule init_abort_inv)
  have ended: "eof (st_cctx s) \<and> (abort (st_cctx s) \<longleftrightarrow> list_ex failed (chunk_logs s))"
    if run: "stream_loop fuel env s0 = (True, s)" for s
  proof -
    from stream_loop_abort_inv [OF inv0, of fuel] run have "abort_inv env s" by simp
    then have "abort (st_cctx s) \<longleftrightarrow> list_ex failed (chunk_logs s)"
      by (simp add: abort_inv_def failed_eq)
    with stream_loop_ends_at_eof [OF inv0 run] show ?thesis by simp
  qed
  have result: "whisper_stream_full env sparams allocs p fuel =
           (if \<not> (alloc_read_buffer allocs \<and> alloc_worker_buffer allocs \<and> alloc_tokens allocs)
            then Inr (-1)
            else case stream_loop fuel env s0 of
                   (False, s) \<Rightarrow> Inl StillRunning
                 | (True, s) \<Rightarrow> Inr (if list_ex failed (chunk_logs s) then -1 else 0))"
  proof (cases "stream_loop fuel env s0")
    case (Pair b s)
    show ?thesis
    proof (cases b)
      case True
      with Pair ended [of s] have "abort (st_cctx s) \<longleftrightarrow> list_ex failed (chunk_logs s)" by simp
      with Pair True assms show ?thesis
        by (simp add: whisper_stream_full_def s0_def [symmetric])
    next
      case False
      with Pair assms show ?thesis
        by (simp add: whisper_stream_full_def s0_def [symmetric])
    qed
  qed
  have terminates: "\<exists>k. fst (stream_loop k env s0)"
    if ext: "0 \<le> chunk_extend_ms sparams"
      and fin: "\<exists>f. \<forall>q n. f (snd (read_cb env q n)) + length (fst (read_cb env q n)) \<le> f q"
  proof -
    from fin obtain f :: "'b \<Rightarrow> nat"
      where f: "\<forall>q n. f (snd (read_cb env q n)) + length (fst (read_cb env q n)) \<le> f q" ..
    note cfg = init_stream_state_config [OF assms(1,2) ext, of env p]
    show ?thesis
      unfolding s0_def
      by (rule stream_loop_terminates [OF f cfg(1,2,3)]) (simp add: cfg(4))
  qed
  show ?thesis
    unfolding s0_def [symmetric] failed_def [symmetric]
    using result ended terminates by blast
qed

lemma failing_example_run:
  "(case stream_loop 2 failing_example_env
           (init_stream_state failing_example_env example_params (replicate 1200 ())) of
      (b, s) \<Rightarrow> (b, map log_ret (chunk_logs s), map log_chunk_idx (chunk_logs s),
                   abort (st_cctx s), eof (st_cctx s)))
   = (True, [0, 7], [0, 1], True, True)"
  by (simp add: failing_example_env_def example_env_def example_params_def numeral_2_eq_2
      run_defs replicate_add [symmetric])

lemma aborting_example_run:
  "(case stream_loop 3 aborting_example_env
           (init_stream_state aborting_example_env example_params (replicate 1200 ())) of
      (b, s) \<Rightarrow> (b, map log_ret (chunk_logs s), map log_chunk_idx (chunk_logs s),
                   abort (st_cctx s), eof (st_cctx s)))
   = (True, [0, 0], [0, 1], True, True)"
  by (simp add: aborting_example_env_def example_env_def example_params_def numeral_3_eq_3
      run_defs replicate_add [symmetric])

lemma example_abort_cb:
  "abort_cb example_env = None" "abort_cb failing_example_env = None"
  "abort_cb aborting_example_env = Some (\<lambda>i. i = 1)"
  by (simp_all add: example_env_def failing_example_env_def aborting_example_env_def)

lemma example_first_step:
  "fst (stream_loop 1 example_env
          (init_stream_state example_env example_params (replicate 1200 ()))) = False"
  by (simp add: example_env_def example_params_def run_defs replicate_add [symmetric])

theorem whisper_stream_full_result_witness:
  "whisper_stream_full example_env example_params
       \<lparr>alloc_read_buffer = True, alloc_worker_buffer = True, alloc_tokens = True\<rparr>
       (replicate 1200 ()) 3 = Inr 0
 \<and> whisper_stream_full failing_example_env example_params
       \<lparr>alloc_read_buffer = True, alloc_worker_buffer = True, alloc_tokens = True\<rparr>
       (replicate 1200 ()) 2 = Inr (- 1)
 \<and> whisper_stream_full aborting_example_env example_params
       \<lparr>alloc_read_buffer = True, alloc_worker_buffer = True, alloc_tokens = True\<rparr>
       (replicate 1200 ()) 3 = Inr (- 1)
 \<and> whisper_stream_full example_env example_params
       \<lparr>alloc_read_buffer = True, alloc_worker_buffer = True, alloc_tokens = False\<rparr>
       (replicate 1200 ()) 3 = Inr (- 1)
 \<and> whisper_stream_full example_env example_params
       \<lparr>alloc_read_buffer = True, alloc_worker_buffer = True, alloc_tokens = True\<rparr>
       (replicate 1200 ()) 1 = Inl StillRunning"
proof -
  have a: "0 < min_chunk_ms example_params" "0 \<le> overlap_ms example_params"
    "overlap_ms example_params < min_chunk_ms example_params"
    by (simp_all add: example_params_def)
  note res = whisper_stream_full_result [OF a, THEN conjunct1]
  have first: "whisper_stream_full example_env example_params
       \<lparr>alloc_read_buffer = True, alloc_worker_buffer = True, alloc_tokens = True\<rparr>
       (replicate 1200 ()) 3 = Inr 0"
    unfolding res example_run by (simp add: example_abort_cb)
  obtain b s where run: "stream_loop 2 failing_example_env
           (init_stream_state failing_example_env example_params (replicate 1200 ())) = (b, s)"
    by (cases "stream_loop 2 failing_example_env
           (init_stream_state failing_example_env example_params (replicate 1200 ()))")
  with failing_example_run have f: "b" "map log_ret (chunk_logs s) = [0, 7]" by simp_all
  from f(2) have "list_ex (\<lambda>e. log_ret e \<noteq> 0) (chunk_logs s)"
    by (auto simp: list_ex_iff map_eq_Cons_conv)
  then have "list_ex (\<lambda>e. log_ret e \<noteq> 0
                 \<or> (\<exists>cb. abort_cb failing_example_env = Some cb \<and> cb (log_chunk_idx e)))
               (chunk_logs s)"
    by (auto simp: list_ex_iff)
  with f(1) have second: "whisper_stream_full failing_example_env example_params
       \<lparr>alloc_read_buffer = True, alloc_worker_buffer = True, alloc_tokens = True\<rparr>
       (replicate 1200 ()) 2 = Inr (- 1)"
    unfolding res run by simp
  obtain b2 s2 where run2: "stream_loop 3 aborting_example_env
           (init_stream_state aborting_example_env example_params (replicate 1200 ())) = (b2, s2)"
    by (cases "stream_loop 3 aborting_example_env
           (init_stream_state aborting_example_env example_params (replicate 1200 ()))")
  with aborting_example_run have g: "b2" "map log_chunk_idx (chunk_logs s2) = [0, 1]"
    by simp_all
  from g(2) have "list_ex (\<lambda>e. log_chunk_idx e = 1) (chunk_logs s2)"
    by (auto simp: list_ex_iff map_eq_Cons_conv)
  then have "list_ex (\<lambda>e. log_ret e \<noteq> 0
                 \<or> (\<exists>cb. abort_cb aborting_example_env = Some cb \<and> cb (log_chunk_idx e)))
               (chunk_logs s2)"
    by (auto simp: list_ex_iff example_abort_cb)
  with g(1) have aborted: "whisper_stream_full aborting_example_env example_params
       \<lparr>alloc_read_buffer = True, alloc_worker_buffer = True, alloc_tokens = True\<rparr>
       (replicate 1200 ()) 3 = Inr (- 1)"
    unfolding res run2 by simp
  have third: "whisper_stream_full example_env example_params
       \<lparr>alloc_read_buffer = True, alloc_worker_buffer = True, alloc_tokens = False\<rparr>
       (replicate 1200 ()) 3 = Inr (- 1)"
    unfolding res by simp
  obtain b1 s1 where run1: "stream_loop 1 example_env
           (init_stream_state example_env example_params (replicate 1200 ())) = (b1, s1)"
    by (cases "stream_loop 1 example_env
           (init_stream_state example_env example_params (replicate 1200 ()))")
  with example_first_step have "\<not> b1" by simp
  then have fourth: "whisper_stream_full example_env example_params
       \<lparr>alloc_read_buffer = True, alloc_worker_buffer = True, alloc_tokens = True\<rparr>
       (replicate 1200 ()) 1 = Inl StillRunning"
    unfolding res run1 by simp
  from first second aborted third fourth show ?thesis by blast
qed

end
